theory Spec2Isabelle
  imports Main "HOL-Library.Word"
begin

section \<open>Data model\<close>

text \<open>
  A \<open>Guid\<close> is a 128-bit value. The word is the number its canonical text
  spells in hexadecimal, so that the order of the words is the order of
  \<open>Guid.CompareTo\<close> (field by field, every field read as unsigned).
\<close>

type_synonym guid = "128 word"

text \<open>A C-sharp \<open>int\<close>: 32 bits, read as two's complement by \<open>sint\<close>; \<open>-\<close> wraps around.\<close>

type_synonym int32 = "32 word"

text \<open>
  Modelled from the spec: the class \<open>PipelinePluginInfo\<close> is not part of the sources at
  hand. A pipeline plugin has an "id, description, icon reference, use default icon
  flag, and the ordered step sequence", which is "persisted to configuration storage
  as an encoded string".
\<close>

record PipelinePluginInfo =
  Id :: guid
  Description :: string
  IconFile :: "string option"
  UseDefaultIcon :: bool
  EncodedElements :: string

text \<open>
  The \<open>Plugin\<close> class and its subclasses, one constructor for each subclass that
  \<open>PluginsRegistry\<close> instantiates. \<open>DefaultPlugin (id, description, iconFile)\<close>,
  \<open>COMPlugin (id, description, iconFile, global)\<close>; a \<open>SeparatorPlugin\<close> carries no
  data of its own, and \<open>plugin is SeparatorPlugin\<close> is the test \<open>plugin = SeparatorPlugin\<close>.
\<close>

datatype plugin =
    DefaultPlugin guid string "string option"
  | COMPlugin guid string "string option" bool
  | PipelinePlugin PipelinePluginInfo
  | SeparatorPlugin

text \<open>
  \<open>plugin.Id\<close>. The id that the \<open>SeparatorPlugin\<close> class gives all its instances is a
  constant of a class that is not part of the sources at hand: it is the parameter
  \<open>SEPARATOR_PLUGIN_ID\<close>.
\<close>

fun PluginId :: "guid \<Rightarrow> plugin \<Rightarrow> guid" where
  "PluginId SEPARATOR_PLUGIN_ID (DefaultPlugin i d f) = i"
| "PluginId SEPARATOR_PLUGIN_ID (COMPlugin i d f g) = i"
| "PluginId SEPARATOR_PLUGIN_ID (PipelinePlugin info) = Id info"
| "PluginId SEPARATOR_PLUGIN_ID SeparatorPlugin = SEPARATOR_PLUGIN_ID"

section \<open>\<open>PluginsRegistry.OrderPluginsToDisplay\<close>\<close>

text \<open>
  The dictionary \<open>plugins\<close> is an association list: \<open>TryGetValue\<close> is \<open>map_of\<close>,
  \<open>Values\<close> is \<open>map snd\<close>. The first loop of the method, and also its last one (over
  the ids of the sorted set): every id found in the dictionary adds its plugin.
\<close>

fun addPluginsById :: "(guid \<times> plugin) list \<Rightarrow> guid list \<Rightarrow> plugin list \<Rightarrow> plugin list" where
  "addPluginsById plugins [] orderedPlugins = orderedPlugins"
| "addPluginsById plugins (i # ids) orderedPlugins =
     (case map_of plugins i of
        Some plugin \<Rightarrow> addPluginsById plugins ids (orderedPlugins @ [plugin])
      | None \<Rightarrow> addPluginsById plugins ids orderedPlugins)"

text \<open>
  \<open>SortedSet<Guid>\<close> is a strictly ascending list. \<open>Add\<close> keeps an id that is already
  there once; \<open>ExceptWith\<close> removes the members of the other set.
\<close>

fun allPluginIds :: "guid \<Rightarrow> plugin list \<Rightarrow> guid list \<Rightarrow> guid list" where
  "allPluginIds sid [] pluginIds = pluginIds"
| "allPluginIds sid (plugin # rest) pluginIds =
     allPluginIds sid rest (insort_insert (PluginId sid plugin) pluginIds)"

definition ExceptWith :: "guid list \<Rightarrow> guid set \<Rightarrow> guid list" where
  "ExceptWith pluginIds other = filter (\<lambda>i. i \<notin> other) pluginIds"

text \<open>
  The scan of \<open>pluginsInDefaultOrder\<close>, with the flag \<open>prevWasUnknown\<close> and the list
  under construction as the loop's state.
\<close>

fun addUnknownInDefaultOrder ::
  "guid \<Rightarrow> guid list \<Rightarrow> plugin list \<Rightarrow> bool \<Rightarrow> plugin list \<Rightarrow> plugin list" where
  "addUnknownInDefaultOrder sid pluginIds [] prevWasUnknown orderedPlugins = orderedPlugins"
| "addUnknownInDefaultOrder sid pluginIds (plugin # rest) prevWasUnknown orderedPlugins =
     (if plugin \<noteq> SeparatorPlugin then
        (if PluginId sid plugin \<in> set pluginIds
         then addUnknownInDefaultOrder sid pluginIds rest True (orderedPlugins @ [plugin])
         else addUnknownInDefaultOrder sid pluginIds rest False orderedPlugins)
      else
        (if prevWasUnknown
         then addUnknownInDefaultOrder sid pluginIds rest False (orderedPlugins @ [plugin])
         else addUnknownInDefaultOrder sid pluginIds rest prevWasUnknown orderedPlugins))"

text \<open>
  The separator placed in front of the unknown plugins:
  \<open>orderedPlugins.Count > 0 && !(orderedPlugins[orderedPlugins.Count - 1] is SeparatorPlugin)\<close>.
\<close>

definition addSeparatorIfNeeded :: "plugin list \<Rightarrow> plugin list" where
  "addSeparatorIfNeeded orderedPlugins =
     (if length orderedPlugins > 0 \<and> last orderedPlugins \<noteq> SeparatorPlugin
      then orderedPlugins @ [SeparatorPlugin] else orderedPlugins)"

text \<open>
  The method itself. A \<open>null\<close> argument for \<open>knownPlugins\<close> or for
  \<open>pluginsInDefaultOrder\<close> is \<open>None\<close>.
\<close>

definition OrderPluginsToDisplay ::
  "guid \<Rightarrow> (guid \<times> plugin) list \<Rightarrow> guid list \<Rightarrow> guid set option \<Rightarrow> plugin list option
     \<Rightarrow> plugin list" where
  "OrderPluginsToDisplay sid plugins displayOrder knownPlugins pluginsInDefaultOrder =
     (let orderedPlugins = addPluginsById plugins displayOrder [] in
      case knownPlugins of
        None \<Rightarrow> orderedPlugins
      | Some known \<Rightarrow>
          (let pluginIds = ExceptWith (allPluginIds sid (map snd plugins) []) known in
           if length pluginIds > 0 then
             (let orderedPlugins' = addSeparatorIfNeeded orderedPlugins in
              case pluginsInDefaultOrder of
                Some defaultOrder \<Rightarrow>
                  addUnknownInDefaultOrder sid pluginIds defaultOrder False orderedPlugins'
              | None \<Rightarrow> addPluginsById plugins pluginIds orderedPlugins')
           else orderedPlugins))"

text \<open>
  The property of a result list that two of its neighbours are both separators.
\<close>

fun adjacentSeparators :: "plugin list \<Rightarrow> bool" where
  "adjacentSeparators (p # q # rest) =
     (p = SeparatorPlugin \<and> q = SeparatorPlugin \<or> adjacentSeparators (q # rest))"
| "adjacentSeparators _ = False"

text \<open>
  The ids for which the dictionary holds a plugin that is not a separator.
\<close>

definition holdsPlugin :: "(guid \<times> plugin) list \<Rightarrow> guid \<Rightarrow> bool" where
  "holdsPlugin plugins i =
     (case map_of plugins i of None \<Rightarrow> False | Some p \<Rightarrow> p \<noteq> SeparatorPlugin)"

section \<open>\<open>PluginsRegistry.GetPluginsInDefaultOrder\<close>\<close>

subsection \<open>Default plugins\<close>

text \<open>
  The ids and descriptions of the built-in plugins are constants of the resources,
  which are not part of the sources at hand: they are the fields of a parameter.
  An id is the \<open>Guid\<close> that its resource string spells.
\<close>

record Resources =
  SHORT_NAME_PLUGIN_ID :: guid
  SHORT_NAME_PLUGIN_DESCRIPTION :: string
  LONG_NAME_PLUGIN_ID :: guid
  LONG_NAME_PLUGIN_DESCRIPTION :: string
  SHORT_PATH_PLUGIN_ID :: guid
  SHORT_PATH_PLUGIN_DESCRIPTION :: string
  LONG_PATH_PLUGIN_ID :: guid
  LONG_PATH_PLUGIN_DESCRIPTION :: string
  SHORT_FOLDER_PLUGIN_ID :: guid
  SHORT_FOLDER_PLUGIN_DESCRIPTION :: string
  LONG_FOLDER_PLUGIN_ID :: guid
  LONG_FOLDER_PLUGIN_DESCRIPTION :: string
  SHORT_UNC_PATH_PLUGIN_ID :: guid
  SHORT_UNC_PATH_PLUGIN_DESCRIPTION :: string
  LONG_UNC_PATH_PLUGIN_ID :: guid
  LONG_UNC_PATH_PLUGIN_DESCRIPTION :: string
  SHORT_UNC_FOLDER_PATH_PLUGIN_ID :: guid
  SHORT_UNC_FOLDER_PATH_PLUGIN_DESCRIPTION :: string
  LONG_UNC_FOLDER_PATH_PLUGIN_ID :: guid
  LONG_UNC_FOLDER_PATH_PLUGIN_DESCRIPTION :: string
  INTERNET_PATH_PLUGIN_ID :: guid
  INTERNET_PATH_PLUGIN_DESCRIPTION :: string
  SAMBA_PATH_PLUGIN_ID :: guid
  SAMBA_PATH_PLUGIN_DESCRIPTION :: string
  UNIX_PATH_PLUGIN_ID :: guid
  UNIX_PATH_PLUGIN_DESCRIPTION :: string
  CYGWIN_PATH_PLUGIN_ID :: guid
  CYGWIN_PATH_PLUGIN_DESCRIPTION :: string
  WSL_PATH_PLUGIN_ID :: guid
  WSL_PATH_PLUGIN_DESCRIPTION :: string
  MSYS_PATH_PLUGIN_ID :: guid
  MSYS_PATH_PLUGIN_DESCRIPTION :: string

text \<open>
  \<open>UserSettings\<close>, as far as the registry reads it: the icon file stored for a plugin
  (\<open>null\<close> is \<open>None\<close>) and the pipeline plugins, in the order of the configuration.
\<close>

record UserSettings =
  GetIconFileForPlugin :: "guid \<Rightarrow> string option"
  PipelinePlugins :: "PipelinePluginInfo list"

definition CreateDefaultPlugin :: "guid \<Rightarrow> string \<Rightarrow> UserSettings \<Rightarrow> plugin" where
  "CreateDefaultPlugin i description settings =
     (let iconFile = GetIconFileForPlugin settings i in DefaultPlugin i description iconFile)"

definition GetDefaultPlugins :: "Resources \<Rightarrow> plugin list \<Rightarrow> UserSettings \<Rightarrow> plugin list" where
  "GetDefaultPlugins res plugins settings =
     (let separator = SeparatorPlugin in
      plugins @
      [CreateDefaultPlugin (SHORT_NAME_PLUGIN_ID res) (SHORT_NAME_PLUGIN_DESCRIPTION res) settings,
       CreateDefaultPlugin (LONG_NAME_PLUGIN_ID res) (LONG_NAME_PLUGIN_DESCRIPTION res) settings,
       separator,
       CreateDefaultPlugin (SHORT_PATH_PLUGIN_ID res) (SHORT_PATH_PLUGIN_DESCRIPTION res) settings,
       CreateDefaultPlugin (LONG_PATH_PLUGIN_ID res) (LONG_PATH_PLUGIN_DESCRIPTION res) settings,
       separator,
       CreateDefaultPlugin (SHORT_FOLDER_PLUGIN_ID res) (SHORT_FOLDER_PLUGIN_DESCRIPTION res) settings,
       CreateDefaultPlugin (LONG_FOLDER_PLUGIN_ID res) (LONG_FOLDER_PLUGIN_DESCRIPTION res) settings,
       separator,
       CreateDefaultPlugin (SHORT_UNC_PATH_PLUGIN_ID res) (SHORT_UNC_PATH_PLUGIN_DESCRIPTION res) settings,
       CreateDefaultPlugin (LONG_UNC_PATH_PLUGIN_ID res) (LONG_UNC_PATH_PLUGIN_DESCRIPTION res) settings,
       separator,
       CreateDefaultPlugin (SHORT_UNC_FOLDER_PATH_PLUGIN_ID res)
         (SHORT_UNC_FOLDER_PATH_PLUGIN_DESCRIPTION res) settings,
       CreateDefaultPlugin (LONG_UNC_FOLDER_PATH_PLUGIN_ID res)
         (LONG_UNC_FOLDER_PATH_PLUGIN_DESCRIPTION res) settings,
       separator,
       CreateDefaultPlugin (INTERNET_PATH_PLUGIN_ID res) (INTERNET_PATH_PLUGIN_DESCRIPTION res) settings,
       CreateDefaultPlugin (SAMBA_PATH_PLUGIN_ID res) (SAMBA_PATH_PLUGIN_DESCRIPTION res) settings,
       separator,
       CreateDefaultPlugin (UNIX_PATH_PLUGIN_ID res) (UNIX_PATH_PLUGIN_DESCRIPTION res) settings,
       CreateDefaultPlugin (CYGWIN_PATH_PLUGIN_ID res) (CYGWIN_PATH_PLUGIN_DESCRIPTION res) settings,
       CreateDefaultPlugin (WSL_PATH_PLUGIN_ID res) (WSL_PATH_PLUGIN_DESCRIPTION res) settings,
       CreateDefaultPlugin (MSYS_PATH_PLUGIN_ID res) (MSYS_PATH_PLUGIN_DESCRIPTION res) settings])"

subsection \<open>COM plugins: sorting, removing duplicates, copying to the list\<close>

text \<open>The bean \<open>COMPluginInfo\<close>.\<close>

record COMPluginInfo =
  Plugin :: plugin
  GroupId :: int32
  GroupPosition :: int32

text \<open>
  \<open>Guid.CompareTo\<close> and \<open>List<T>.Sort (Comparison<T>)\<close> belong to the platform library.
  \<open>CompareTo\<close> is the sign of the comparison of the two ids. \<open>Sort\<close> is modelled as
  insertion sort: the comparison delegate alone decides where an entry goes, and an
  entry goes in front of the first one that it is smaller than. The library does not
  promise to keep the order of entries that compare equal; no statement below relies
  on it.
\<close>

definition CompareTo :: "guid \<Rightarrow> guid \<Rightarrow> int" where
  "CompareTo a b = (if a < b then - 1 else if a = b then 0 else 1)"

fun insertByComparison :: "('a \<Rightarrow> 'a \<Rightarrow> int) \<Rightarrow> 'a \<Rightarrow> 'a list \<Rightarrow> 'a list" where
  "insertByComparison comparison t [] = [t]"
| "insertByComparison comparison t (k # keys) =
     (if comparison t k < 0 then t # k # keys else k # insertByComparison comparison t keys)"

definition Sort :: "('a \<Rightarrow> 'a \<Rightarrow> int) \<Rightarrow> 'a list \<Rightarrow> 'a list" where
  "Sort comparison keys = foldl (\<lambda>done t. insertByComparison comparison t done) [] keys"

text \<open>The two comparison delegates of \<open>GetCOMPlugins\<close>. The second one subtracts \<open>int\<close>s.\<close>

definition compareIds :: "guid \<Rightarrow> COMPluginInfo \<Rightarrow> COMPluginInfo \<Rightarrow> int" where
  "compareIds sid info1 info2 =
     CompareTo (PluginId sid (Plugin info1)) (PluginId sid (Plugin info2))"

definition compareGroups :: "COMPluginInfo \<Rightarrow> COMPluginInfo \<Rightarrow> int" where
  "compareGroups info1 info2 =
     (let cmp = GroupId info1 - GroupId info2;
          cmp' = (if cmp = 0 then GroupPosition info1 - GroupPosition info2 else cmp)
      in sint cmp')"

text \<open>
  \<open>RemoveAt\<close>, and the loop \<open>for (int i = Count - 1; i > 0; --i)\<close> that removes an entry
  whose id is the id of the entry in front of it. The first argument is \<open>i\<close>.
\<close>

definition RemoveAt :: "nat \<Rightarrow> 'a list \<Rightarrow> 'a list" where
  "RemoveAt i xs = take i xs @ drop (Suc i) xs"

fun removeDuplicates :: "guid \<Rightarrow> nat \<Rightarrow> COMPluginInfo list \<Rightarrow> COMPluginInfo list" where
  "removeDuplicates sid 0 comPluginInfos = comPluginInfos"
| "removeDuplicates sid (Suc j) comPluginInfos =
     removeDuplicates sid j
       (if PluginId sid (Plugin (comPluginInfos ! Suc j)) = PluginId sid (Plugin (comPluginInfos ! j))
        then RemoveAt (Suc j) comPluginInfos else comPluginInfos)"

definition sortAndRemoveDuplicates :: "guid \<Rightarrow> COMPluginInfo list \<Rightarrow> COMPluginInfo list" where
  "sortAndRemoveDuplicates sid comPluginInfos =
     (if length comPluginInfos > 1
      then (let byId = Sort (compareIds sid) comPluginInfos
            in removeDuplicates sid (length byId - 1) byId)
      else comPluginInfos)"

text \<open>
  The loop that copies the plugins to the list, a separator in front of a plugin whose
  group is not \<open>currentGroup\<close> unless the list is empty.
\<close>

definition Int32_MaxValue :: int32 where
  "Int32_MaxValue = 2147483647"

fun copyCOMPlugins :: "plugin list \<Rightarrow> int32 \<Rightarrow> COMPluginInfo list \<Rightarrow> plugin list" where
  "copyCOMPlugins plugins currentGroup [] = plugins"
| "copyCOMPlugins plugins currentGroup (info # rest) =
     (let plugins' = (if length plugins > 0 \<and> currentGroup \<noteq> GroupId info
                      then plugins @ [SeparatorPlugin] else plugins)
      in copyCOMPlugins (plugins' @ [Plugin info]) (GroupId info) rest)"

definition addCOMPlugins :: "plugin list \<Rightarrow> COMPluginInfo list \<Rightarrow> plugin list" where
  "addCOMPlugins plugins comPluginInfos =
     (if length comPluginInfos > 0
      then copyCOMPlugins plugins Int32_MaxValue comPluginInfos else plugins)"

text \<open>
  What \<open>GetCOMPlugins\<close> does with the beans it has collected: sort by id and remove
  duplicates, sort by group and position, copy to the list.
\<close>

definition arrangeCOMPlugins :: "guid \<Rightarrow> plugin list \<Rightarrow> COMPluginInfo list \<Rightarrow> plugin list" where
  "arrangeCOMPlugins sid plugins comPluginInfos =
     addCOMPlugins plugins (Sort compareGroups (sortAndRemoveDuplicates sid comPluginInfos))"

text \<open>
  The order that the second sort is meant to establish, on the values of the \<open>int\<close>s:
  \<open>a\<close> may come in front of \<open>b\<close> when its group id is smaller, or the group ids are
  equal and its position is not greater.
\<close>

definition groupOrder :: "COMPluginInfo \<Rightarrow> COMPluginInfo \<Rightarrow> bool" where
  "groupOrder a b =
     (sint (GroupId a) < sint (GroupId b) \<or>
      (GroupId a = GroupId b \<and> sint (GroupPosition a) \<le> sint (GroupPosition b)))"

subsection \<open>Pipeline plugins\<close>

text \<open>
  Modelled from the spec: \<open>PipelinePluginInfo.ToPlugins\<close> is not part of the sources at
  hand. The pipeline plugins are appended "as Plugins, in their stored configuration
  order": one plugin for each info, in the order of the infos.
\<close>

definition ToPlugins :: "PipelinePluginInfo list \<Rightarrow> plugin list" where
  "ToPlugins pluginInfos = map PipelinePlugin pluginInfos"

definition GetPipelinePlugins :: "plugin list \<Rightarrow> UserSettings \<Rightarrow> plugin list" where
  "GetPipelinePlugins plugins settings =
     (let pluginInfos = PipelinePlugins settings in
      if length pluginInfos > 0 then
        (let plugins' = (if length plugins > 0 then plugins @ [SeparatorPlugin] else plugins)
         in plugins' @ ToPlugins pluginInfos)
      else plugins)"

subsection \<open>COM plugins: collecting them from the registry\<close>

text \<open>
  The exceptions that the calls of \<open>GetCOMPlugins\<close> can raise. A call that can raise
  returns a sum, the exception to the left.
\<close>

datatype exn =
    SecurityException
  | ObjectDisposedException
  | UnauthorizedAccessException
  | IOException
  | FormatException
  | OverflowException
  | COMPluginExecutorException

text \<open>
  The platform and the collaborators that \<open>GetCOMPlugins\<close> calls are parameters:
  \<^item> \<open>PCCEnvironment\<close>, the two flags;
  \<^item> the registry: for a root (\<open>True\<close> is \<open>Registry.LocalMachine\<close>, \<open>False\<close> is
    \<open>Registry.CurrentUser\<close>) and a key path, what \<open>OpenSubKey\<close> followed by
    \<open>GetValueNames\<close> gives: an exception, \<open>None\<close> for a key that is not there (\<open>null\<close>),
    or the names of the values of the key;
  \<^item> \<open>new Guid (string)\<close>, which raises \<open>FormatException\<close> or \<open>OverflowException\<close> for a
    string that is not the text of a \<open>Guid\<close>;
  \<^item> the \<open>COMPluginExecutor\<close>, with its five queries.
\<close>

record PCCEnvironment =
  Is64Bit :: bool
  IsWow64 :: bool

type_synonym registry = "bool \<Rightarrow> string \<Rightarrow> exn + string list option"

record COMPluginExecutor =
  GetDescription :: "guid \<Rightarrow> exn + string"
  GetGroupId :: "guid \<Rightarrow> exn + int32"
  GetGroupPosition :: "guid \<Rightarrow> exn + int32"
  GetUseDefaultIcon :: "guid \<Rightarrow> exn + bool"
  GetIconFile :: "guid \<Rightarrow> exn + string option"

text \<open>The key paths; \<open>CHR 0x5C\<close> is the backslash.\<close>

definition PCC_COM_PLUGINS_KEY :: string where
  "PCC_COM_PLUGINS_KEY =
     ''Software'' @ CHR 0x5C # ''clechasseur'' @ CHR 0x5C # ''PathCopyCopy'' @ CHR 0x5C # ''Plugins''"

definition PCC_COM_PLUGINS_KEY_WOW64 :: string where
  "PCC_COM_PLUGINS_KEY_WOW64 =
     ''Software'' @ CHR 0x5C # ''Wow6432Node'' @ CHR 0x5C # ''clechasseur'' @ CHR 0x5C #
     ''PathCopyCopy'' @ CHR 0x5C # ''Plugins''"

definition LEGACY_COM_PLUGINS_LAST_UPDATE_VALUE_NAME :: string where
  "LEGACY_COM_PLUGINS_LAST_UPDATE_VALUE_NAME = ''LastUpdate''"

record COMPluginsRegKeyInfo =
  Global :: bool
  KeyPath :: string

definition regKeyInfos :: "PCCEnvironment \<Rightarrow> COMPluginsRegKeyInfo list" where
  "regKeyInfos env =
     [\<lparr>Global = True,
       KeyPath = (if \<not> Is64Bit env \<and> IsWow64 env
                  then PCC_COM_PLUGINS_KEY_WOW64 else PCC_COM_PLUGINS_KEY)\<rparr>,
      \<lparr>Global = False, KeyPath = PCC_COM_PLUGINS_KEY\<rparr>]"

text \<open>
  The inner \<open>try\<close> around \<open>new Guid (id)\<close>: \<open>Inr None\<close> is \<open>idAsGuid = null\<close>; an exception
  that is neither \<open>FormatException\<close> nor \<open>OverflowException\<close> goes on.
\<close>

definition idToGuid :: "(string \<Rightarrow> exn + guid) \<Rightarrow> string \<Rightarrow> exn + guid option" where
  "idToGuid newGuid i =
     (if i \<noteq> LEGACY_COM_PLUGINS_LAST_UPDATE_VALUE_NAME then
        (case newGuid i of
           Inr g \<Rightarrow> Inr (Some g)
         | Inl FormatException \<Rightarrow> Inr None
         | Inl OverflowException \<Rightarrow> Inr None
         | Inl e \<Rightarrow> Inl e)
      else Inr None)"

text \<open>
  The \<open>try\<close> around the queries of the executor, in the order of the source; the icon
  file is only asked for when the plugin does not use the default icon.
  \<open>COMPluginExecutorException\<close> gives \<open>Inr None\<close> (\<open>idAsGuid = null\<close>: skip this plugin),
  another exception goes on.
\<close>

definition fetchIconFile :: "COMPluginExecutor \<Rightarrow> guid \<Rightarrow> exn + string option" where
  "fetchIconFile executor g =
     (case GetUseDefaultIcon executor g of
        Inl e \<Rightarrow> Inl e
      | Inr True \<Rightarrow> Inr (Some [])
      | Inr False \<Rightarrow>
          (case GetIconFile executor g of
             Inl e \<Rightarrow> Inl e
           | Inr None \<Rightarrow> Inr None
           | Inr (Some iconFile) \<Rightarrow> Inr (if iconFile = [] then None else Some iconFile)))"

definition fetchPluginInfos :: "COMPluginExecutor \<Rightarrow> guid \<Rightarrow> bool \<Rightarrow> exn + COMPluginInfo" where
  "fetchPluginInfos executor g global =
     (case GetDescription executor g of
        Inl e \<Rightarrow> Inl e
      | Inr description \<Rightarrow>
     (case GetGroupId executor g of
        Inl e \<Rightarrow> Inl e
      | Inr groupId \<Rightarrow>
     (case GetGroupPosition executor g of
        Inl e \<Rightarrow> Inl e
      | Inr groupPosition \<Rightarrow>
     (case fetchIconFile executor g of
        Inl e \<Rightarrow> Inl e
      | Inr iconFile \<Rightarrow>
          Inr \<lparr>Plugin = COMPlugin g description iconFile global,
               GroupId = groupId, GroupPosition = groupPosition\<rparr>))))"

definition tryFetchPluginInfos ::
  "COMPluginExecutor \<Rightarrow> guid \<Rightarrow> bool \<Rightarrow> exn + COMPluginInfo option" where
  "tryFetchPluginInfos executor g global =
     (case fetchPluginInfos executor g global of
        Inr info \<Rightarrow> Inr (Some info)
      | Inl COMPluginExecutorException \<Rightarrow> Inr None
      | Inl e \<Rightarrow> Inl e)"

text \<open>
  The loop over the value names of one key. The list of beans is changed in place, so
  an exception leaves what was added before it: the result is the list, and the
  exception that ended the loop, if any.
\<close>

fun scanIds ::
  "(string \<Rightarrow> exn + guid) \<Rightarrow> COMPluginExecutor \<Rightarrow> bool \<Rightarrow> string list \<Rightarrow> COMPluginInfo list
     \<Rightarrow> COMPluginInfo list \<times> exn option" where
  "scanIds newGuid executor global [] comPluginInfos = (comPluginInfos, None)"
| "scanIds newGuid executor global (i # ids) comPluginInfos =
     (case idToGuid newGuid i of
        Inl e \<Rightarrow> (comPluginInfos, Some e)
      | Inr None \<Rightarrow> scanIds newGuid executor global ids comPluginInfos
      | Inr (Some g) \<Rightarrow>
          (case tryFetchPluginInfos executor g global of
             Inl e \<Rightarrow> (comPluginInfos, Some e)
           | Inr None \<Rightarrow> scanIds newGuid executor global ids comPluginInfos
           | Inr (Some info) \<Rightarrow> scanIds newGuid executor global ids (comPluginInfos @ [info])))"

text \<open>
  The body of the loop over the two keys, with its \<open>try\<close>: \<open>SecurityException\<close> and
  \<open>ObjectDisposedException\<close> end the scan of this key and nothing else.
\<close>

definition catchKeyExceptions :: "COMPluginInfo list \<times> exn option \<Rightarrow> exn + COMPluginInfo list" where
  "catchKeyExceptions r =
     (case r of
        (comPluginInfos, None) \<Rightarrow> Inr comPluginInfos
      | (comPluginInfos, Some SecurityException) \<Rightarrow> Inr comPluginInfos
      | (comPluginInfos, Some ObjectDisposedException) \<Rightarrow> Inr comPluginInfos
      | (comPluginInfos, Some e) \<Rightarrow> Inl e)"

definition scanRegKey ::
  "registry \<Rightarrow> (string \<Rightarrow> exn + guid) \<Rightarrow> COMPluginExecutor \<Rightarrow> COMPluginsRegKeyInfo
     \<Rightarrow> COMPluginInfo list \<Rightarrow> exn + COMPluginInfo list" where
  "scanRegKey reg newGuid executor regKeyInfo comPluginInfos =
     catchKeyExceptions
       (case reg (Global regKeyInfo) (KeyPath regKeyInfo) of
          Inl e \<Rightarrow> (comPluginInfos, Some e)
        | Inr None \<Rightarrow> (comPluginInfos, None)
        | Inr (Some ids) \<Rightarrow> scanIds newGuid executor (Global regKeyInfo) ids comPluginInfos)"

fun scanRegKeys ::
  "registry \<Rightarrow> (string \<Rightarrow> exn + guid) \<Rightarrow> COMPluginExecutor \<Rightarrow> COMPluginsRegKeyInfo list
     \<Rightarrow> COMPluginInfo list \<Rightarrow> exn + COMPluginInfo list" where
  "scanRegKeys reg newGuid executor [] comPluginInfos = Inr comPluginInfos"
| "scanRegKeys reg newGuid executor (regKeyInfo # rest) comPluginInfos =
     (case scanRegKey reg newGuid executor regKeyInfo comPluginInfos of
        Inl e \<Rightarrow> Inl e
      | Inr comPluginInfos' \<Rightarrow> scanRegKeys reg newGuid executor rest comPluginInfos')"

subsection \<open>The methods\<close>

definition GetCOMPlugins ::
  "guid \<Rightarrow> PCCEnvironment \<Rightarrow> registry \<Rightarrow> (string \<Rightarrow> exn + guid) \<Rightarrow> COMPluginExecutor
     \<Rightarrow> plugin list \<Rightarrow> exn + plugin list" where
  "GetCOMPlugins sid env reg newGuid executor plugins =
     (case scanRegKeys reg newGuid executor (regKeyInfos env) [] of
        Inl e \<Rightarrow> Inl e
      | Inr comPluginInfos \<Rightarrow> Inr (arrangeCOMPlugins sid plugins comPluginInfos))"

definition GetPluginsInDefaultOrder ::
  "guid \<Rightarrow> Resources \<Rightarrow> PCCEnvironment \<Rightarrow> registry \<Rightarrow> (string \<Rightarrow> exn + guid)
     \<Rightarrow> COMPluginExecutor \<Rightarrow> UserSettings \<Rightarrow> bool \<Rightarrow> exn + plugin list" where
  "GetPluginsInDefaultOrder sid res env reg newGuid executor settings includePipelinePlugins =
     (let plugins = GetDefaultPlugins res [] settings in
      case GetCOMPlugins sid env reg newGuid executor plugins of
        Inl e \<Rightarrow> Inl e
      | Inr plugins' \<Rightarrow>
          Inr (if includePipelinePlugins then GetPipelinePlugins plugins' settings
               else plugins'))"

text \<open>
  Two conditions on what the collaborators do, for the statements about failures:
  a call raises no exception outside a given set; and one of the queries that
  \<open>GetCOMPlugins\<close> makes for an id raises (the icon file is only asked for when the
  plugin does not use the default icon).
\<close>

definition raisesOnly :: "exn set \<Rightarrow> exn + 'a \<Rightarrow> bool" where
  "raisesOnly E r = (case r of Inl e \<Rightarrow> e \<in> E | Inr v \<Rightarrow> True)"

definition executorRaisesOnly :: "exn set \<Rightarrow> COMPluginExecutor \<Rightarrow> guid \<Rightarrow> bool" where
  "executorRaisesOnly E executor g =
     (raisesOnly E (GetDescription executor g) \<and> raisesOnly E (GetGroupId executor g) \<and>
      raisesOnly E (GetGroupPosition executor g) \<and> raisesOnly E (GetUseDefaultIcon executor g) \<and>
      raisesOnly E (GetIconFile executor g))"

definition queryFails :: "COMPluginExecutor \<Rightarrow> guid \<Rightarrow> bool" where
  "queryFails executor g =
     (isl (GetDescription executor g) \<or> isl (GetGroupId executor g) \<or>
      isl (GetGroupPosition executor g) \<or> isl (GetUseDefaultIcon executor g) \<or>
      (GetUseDefaultIcon executor g = Inr False \<and> isl (GetIconFile executor g)))"

text \<open>
  A registry, a \<open>Guid\<close> constructor and an executor to run the methods on: the machine
  key cannot be read; the user key has the plugins 3, 2 and 1, a value that is not an
  id and the legacy marker; the executor fails on the group of plugin 2.
\<close>

definition exampleNewGuid :: "string \<Rightarrow> exn + guid" where
  "exampleNewGuid i =
     (if i = ''{00000000-0000-0000-0000-000000000001}'' then Inr 1
      else if i = ''{00000000-0000-0000-0000-000000000002}'' then Inr 2
      else if i = ''{00000000-0000-0000-0000-000000000003}'' then Inr 3
      else Inl FormatException)"

definition exampleExecutor :: COMPluginExecutor where
  "exampleExecutor =
     \<lparr>GetDescription = (\<lambda>g. Inr ''Plugin''),
      GetGroupId = (\<lambda>g. if g = 2 then Inl COMPluginExecutorException else Inr 7),
      GetGroupPosition = (\<lambda>g. Inr (ucast g)),
      GetUseDefaultIcon = (\<lambda>g. Inr True),
      GetIconFile = (\<lambda>g. Inl COMPluginExecutorException)\<rparr>"

definition exampleRegistry :: registry where
  "exampleRegistry global path =
     (if global then Inl SecurityException
      else Inr (Some [''{00000000-0000-0000-0000-000000000003}'', ''not-a-guid'',
                      ''{00000000-0000-0000-0000-000000000002}'', ''LastUpdate'',
                      ''{00000000-0000-0000-0000-000000000001}'']))"

section \<open>Pipeline plugins: \<open>GetPath\<close>\<close>

text \<open>
  Modelled from the spec: the code that runs a pipeline plugin is not part of the
  sources at hand. A step gives the new path or signals a hard failure. \<open>GetPath\<close>
  "iterates the step sequence in declared order, passing each step's output as the
  next step's input, starting from \<open>inputPath\<close>"; "if any step signals a hard failure,
  execution stops and the failure is surfaced to the caller with the
  partially-transformed path discarded".
\<close>

datatype failure = HardFailure

fun GetPath :: "(string \<Rightarrow> failure + string) list \<Rightarrow> string \<Rightarrow> failure + string" where
  "GetPath [] path = Inr path"
| "GetPath (step # steps) path =
     (case step path of
        Inl f \<Rightarrow> Inl f
      | Inr path' \<Rightarrow> GetPath steps path')"

section \<open>\<open>PluginUtils\<close>: lists of plugin ids as strings\<close>

text \<open>
  \<open>StringFromGUID2\<close> and \<open>CLSIDFromString\<close> belong to the platform, and
  \<open>StringUtils::Split\<close> is not part of the sources at hand: the three are parameters.
  \<^item> \<open>stringFromGUID2 g cchMax\<close> is the text written to a buffer of \<open>cchMax\<close>
    characters, \<open>None\<close> when the call returns 0;
  \<^item> \<open>clsidFromString s\<close> is the \<open>GUID\<close> read from \<open>s\<close>, \<open>None\<close> when the call does not
    succeed;
  \<^item> \<open>split s separator\<close> is the vector of parts.
  The character type is a parameter as well.
\<close>

definition guidToString :: "(guid \<Rightarrow> nat \<Rightarrow> 'c list option) \<Rightarrow> guid \<Rightarrow> 'c list" where
  "guidToString stringFromGUID2 g =
     (case stringFromGUID2 g 40 of Some guidBuffer \<Rightarrow> guidBuffer | None \<Rightarrow> [])"

fun insertOtherElements ::
  "(guid \<Rightarrow> nat \<Rightarrow> 'c list option) \<Rightarrow> 'c \<Rightarrow> guid list \<Rightarrow> 'c list \<Rightarrow> 'c list" where
  "insertOtherElements stringFromGUID2 p_Separator [] wos = wos"
| "insertOtherElements stringFromGUID2 p_Separator (g # rest) wos =
     insertOtherElements stringFromGUID2 p_Separator rest
       (wos @ [p_Separator] @ guidToString stringFromGUID2 g)"

definition PluginIdsToString ::
  "(guid \<Rightarrow> nat \<Rightarrow> 'c list option) \<Rightarrow> guid list \<Rightarrow> 'c \<Rightarrow> 'c list" where
  "PluginIdsToString stringFromGUID2 p_vPluginIds p_Separator =
     (case p_vPluginIds of
        [] \<Rightarrow> []
      | front # others \<Rightarrow>
          insertOtherElements stringFromGUID2 p_Separator others (guidToString stringFromGUID2 front))"

fun convertParts :: "('c list \<Rightarrow> guid option) \<Rightarrow> 'c list list \<Rightarrow> guid list \<Rightarrow> guid list" where
  "convertParts clsidFromString [] vPluginIds = vPluginIds"
| "convertParts clsidFromString (stringPart # parts) vPluginIds =
     (case clsidFromString stringPart of
        Some onePluginId \<Rightarrow> convertParts clsidFromString parts (vPluginIds @ [onePluginId])
      | None \<Rightarrow> convertParts clsidFromString parts vPluginIds)"

definition StringToPluginIds ::
  "('c list \<Rightarrow> 'c \<Rightarrow> 'c list list) \<Rightarrow> ('c list \<Rightarrow> guid option) \<Rightarrow> 'c list \<Rightarrow> 'c \<Rightarrow> guid list" where
  "StringToPluginIds split clsidFromString p_rPluginIdsAsString p_Separator =
     convertParts clsidFromString (split p_rPluginIdsAsString p_Separator) []"

text \<open>
  What the statement on the round trip asks of the parameters. Of \<open>split\<close>: no part for
  the empty string, and a part that is not empty and has no separator in it is split
  off in front of a separator, or is the only part when nothing follows it. Of the two
  platform functions, for one \<open>GUID\<close>: the text fits the buffer, is not empty, has no
  separator in it and reads back as the \<open>GUID\<close>.
\<close>

definition splitsAt :: "('c list \<Rightarrow> 'c \<Rightarrow> 'c list list) \<Rightarrow> 'c \<Rightarrow> bool" where
  "splitsAt split sep =
     (split [] sep = [] \<and>
      (\<forall>part. part \<noteq> [] \<and> sep \<notin> set part \<longrightarrow> split part sep = [part]) \<and>
      (\<forall>part rest. part \<noteq> [] \<and> sep \<notin> set part \<longrightarrow>
         split (part @ sep # rest) sep = part # split rest sep))"

definition guidText ::
  "(guid \<Rightarrow> nat \<Rightarrow> 'c list option) \<Rightarrow> ('c list \<Rightarrow> guid option) \<Rightarrow> 'c \<Rightarrow> guid \<Rightarrow> bool" where
  "guidText stringFromGUID2 clsidFromString sep g =
     (case stringFromGUID2 g 40 of
        None \<Rightarrow> False
      | Some s \<Rightarrow> s \<noteq> [] \<and> sep \<notin> set s \<and> clsidFromString s = Some g)"

text \<open>
  Functions that meet these conditions, to run the two methods on: a split that cuts
  at every separator and drops empty parts, and the text of the ids 1 and 2.
\<close>

fun tokens :: "'c \<Rightarrow> 'c list \<Rightarrow> 'c list \<Rightarrow> 'c list list" where
  "tokens sep token [] = (if token = [] then [] else [token])"
| "tokens sep token (c # cs) =
     (if c = sep then (if token = [] then [] else [token]) @ tokens sep [] cs
      else tokens sep (token @ [c]) cs)"

definition exampleSplit :: "'c list \<Rightarrow> 'c \<Rightarrow> 'c list list" where
  "exampleSplit s sep = tokens sep [] s"

definition exampleStringFromGUID2 :: "guid \<Rightarrow> nat \<Rightarrow> string option" where
  "exampleStringFromGUID2 g cchMax =
     (if cchMax < 39 then None
      else if g = 1 then Some ''{00000000-0000-0000-0000-000000000001}''
      else if g = 2 then Some ''{00000000-0000-0000-0000-000000000002}''
      else None)"

definition exampleCLSIDFromString :: "string \<Rightarrow> guid option" where
  "exampleCLSIDFromString s =
     (if s = ''{00000000-0000-0000-0000-000000000001}'' then Some 1
      else if s = ''{00000000-0000-0000-0000-000000000002}'' then Some 2
      else None)"

section \<open>Properties of \<open>OrderPluginsToDisplay\<close>\<close>

subsection \<open>The loops, in closed form\<close>

lemma addPluginsById_append:
  "addPluginsById plugins ids acc =
     acc @ map (\<lambda>i. the (map_of plugins i)) (filter (\<lambda>i. i \<in> fst ` set plugins) ids)"
proof (induction ids arbitrary: acc)
  case Nil
  show ?case by simp
next
  case (Cons i ids)
  show ?case
  proof (cases "map_of plugins i")
    case None
    then have "i \<notin> fst ` set plugins" by (simp add: map_of_eq_None_iff)
    with None Cons show ?thesis by simp
  next
    case (Some p)
    then have "i \<in> fst ` set plugins" by (metis map_of_eq_None_iff option.distinct(1))
    with Some Cons show ?thesis by simp
  qed
qed

lemma addPluginsById_ids:
  assumes "\<forall>(k, p) \<in> set plugins. PluginId sid p = k"
  shows "map (PluginId sid) (addPluginsById plugins ids acc) =
         map (PluginId sid) acc @ filter (\<lambda>i. i \<in> fst ` set plugins) ids"
proof -
  have "PluginId sid (the (map_of plugins i)) = i" if "i \<in> fst ` set plugins" for i
  proof -
    from that obtain p where "map_of plugins i = Some p"
      by (metis map_of_eq_None_iff not_Some_eq)
    moreover from this have "(i, p) \<in> set plugins" by (rule map_of_SomeD)
    ultimately show ?thesis using assms by auto
  qed
  then show ?thesis
    by (simp add: addPluginsById_append) (induction ids; simp)
qed

lemma set_allPluginIds:
  "set (allPluginIds sid ps acc) = PluginId sid ` set ps \<union> set acc"
  by (induction ps arbitrary: acc) (auto simp: set_insort_insert)

lemma distinct_allPluginIds:
  "distinct acc \<Longrightarrow> distinct (allPluginIds sid ps acc)"
  by (induction ps arbitrary: acc) (auto simp: distinct_insort_insert)

lemma sorted_allPluginIds:
  "sorted acc \<Longrightarrow> sorted (allPluginIds sid ps acc)"
  by (induction ps arbitrary: acc) (auto simp: sorted_insort_insert)

lemma distinct_ExceptWith:
  "distinct (ExceptWith (allPluginIds sid ps []) known)"
  by (simp add: ExceptWith_def distinct_allPluginIds)

lemma set_ExceptWith: "set (ExceptWith ids known) = set ids - known"
  by (auto simp: ExceptWith_def)

lemma addUnknown_prefix:
  "\<exists>rest. addUnknownInDefaultOrder sid ids d prev acc = acc @ rest"
proof (induction d arbitrary: prev acc)
  case Nil
  show ?case by simp
next
  case (Cons p d)
  show ?case
    using Cons [of True "acc @ [p]"] Cons [of False "acc @ [p]"] Cons [of False acc]
      Cons [of prev acc]
    by auto
qed

lemma addUnknown_nonseparators:
  "filter (\<lambda>p. p \<noteq> SeparatorPlugin) (addUnknownInDefaultOrder sid ids d prev acc) =
   filter (\<lambda>p. p \<noteq> SeparatorPlugin) acc @
   filter (\<lambda>p. p \<noteq> SeparatorPlugin \<and> PluginId sid p \<in> set ids) d"
  by (induction d arbitrary: prev acc) auto

lemma addSeparatorIfNeeded_prefix: "\<exists>rest. addSeparatorIfNeeded acc = acc @ rest"
  by (simp add: addSeparatorIfNeeded_def)

lemma addSeparatorIfNeeded_nonseparators:
  "filter (\<lambda>p. p \<noteq> SeparatorPlugin) (addSeparatorIfNeeded acc) =
   filter (\<lambda>p. p \<noteq> SeparatorPlugin) acc"
  by (simp add: addSeparatorIfNeeded_def)

subsection \<open>The walk over the display order\<close>

text \<open>
  Claim C3. Whatever the other arguments are, the result starts with the plugins that
  the dictionary holds for the ids of \<open>displayOrder\<close>, in the order of \<open>displayOrder\<close>,
  the ids that the dictionary does not hold being left out; without \<open>knownPlugins\<close>
  that is the whole result. For a dictionary that holds the plugins \<open>A\<close>, \<open>B\<close>, \<open>C\<close>
  under the ids \<open>a\<close>, \<open>b\<close>, \<open>c\<close> (in whatever order it enumerates them) and the display
  order \<open>[a, b, c]\<close>, the result is \<open>[A, B, C]\<close>.
\<close>

theorem OrderPluginsToDisplay_display_order_walk:
  "(\<exists>rest. OrderPluginsToDisplay sid plugins displayOrder knownPlugins dflt =
      map (\<lambda>i. the (map_of plugins i)) (filter (\<lambda>i. i \<in> fst ` set plugins) displayOrder) @ rest)
   \<and> OrderPluginsToDisplay sid plugins displayOrder None dflt =
      map (\<lambda>i. the (map_of plugins i)) (filter (\<lambda>i. i \<in> fst ` set plugins) displayOrder)
   \<and> (distinct (map fst plugins) \<and> set plugins = {(a, A), (b, B), (c, C)} \<longrightarrow>
        OrderPluginsToDisplay sid plugins [a, b, c] None dflt = [A, B, C])"
proof (intro conjI impI)
  let ?walk = "map (\<lambda>i. the (map_of plugins i)) (filter (\<lambda>i. i \<in> fst ` set plugins) displayOrder)"
  have w: "addPluginsById plugins ids [] =
           map (\<lambda>i. the (map_of plugins i)) (filter (\<lambda>i. i \<in> fst ` set plugins) ids)" for ids
    by (simp add: addPluginsById_append)
  show "\<exists>rest. OrderPluginsToDisplay sid plugins displayOrder knownPlugins dflt = ?walk @ rest"
  proof (cases knownPlugins)
    case None
    then show ?thesis by (simp add: OrderPluginsToDisplay_def w)
  next
    case (Some known)
    obtain r1 where r1: "addSeparatorIfNeeded ?walk = ?walk @ r1"
      using addSeparatorIfNeeded_prefix by blast
    show ?thesis
    proof (cases dflt)
      case None
      with Some r1 show ?thesis
        by (simp add: OrderPluginsToDisplay_def w Let_def
            addPluginsById_append [of plugins _ "_ @ _"])
    next
      case (Some d)
      obtain r2 where
        "addUnknownInDefaultOrder sid (ExceptWith (allPluginIds sid (map snd plugins) []) known)
           d False (?walk @ r1) = (?walk @ r1) @ r2"
        using addUnknown_prefix by blast
      with Some \<open>knownPlugins = Some known\<close> r1 show ?thesis
        by (simp add: OrderPluginsToDisplay_def w Let_def)
    qed
  qed
  show "OrderPluginsToDisplay sid plugins displayOrder None dflt = ?walk"
    by (simp add: OrderPluginsToDisplay_def w)
  assume abc: "distinct (map fst plugins) \<and> set plugins = {(a, A), (b, B), (c, C)}"
  then have "map_of plugins a = Some A" "map_of plugins b = Some B" "map_of plugins c = Some C"
    by (simp_all add: map_of_is_SomeI)
  moreover from abc have "fst ` set plugins = {a, b, c}" by simp
  ultimately show "OrderPluginsToDisplay sid plugins [a, b, c] None dflt = [A, B, C]"
    by (simp add: OrderPluginsToDisplay_def w)
qed

theorem OrderPluginsToDisplay_display_order_walk_witness:
  "OrderPluginsToDisplay 0
     [(3, DefaultPlugin 3 ''C'' None), (1, DefaultPlugin 1 ''A'' None),
      (2, COMPlugin 2 ''B'' None True)]
     [1, 2, 3] None None =
   [DefaultPlugin 1 ''A'' None, COMPlugin 2 ''B'' None True, DefaultPlugin 3 ''C'' None]"
proof -
  have "distinct (map fst [(3 :: guid, DefaultPlugin 3 ''C'' None), (1, DefaultPlugin 1 ''A'' None),
      (2, COMPlugin 2 ''B'' None True)]) \<and>
    set [(3 :: guid, DefaultPlugin 3 ''C'' None), (1, DefaultPlugin 1 ''A'' None),
      (2, COMPlugin 2 ''B'' None True)] =
    {(1, DefaultPlugin 1 ''A'' None), (2, COMPlugin 2 ''B'' None True), (3, DefaultPlugin 3 ''C'' None)}"
    by auto
  then show ?thesis
    by (rule OrderPluginsToDisplay_display_order_walk [THEN conjunct2, THEN conjunct2, THEN mp])
qed

subsection \<open>Unknown plugins\<close>

text \<open>
  Claim C4. For a dictionary that holds the plugins \<open>A\<close>, \<open>B\<close>, \<open>C\<close> (none a separator)
  under their own, distinct ids (in whatever order it enumerates them), the display
  order \<open>[A]\<close>, the known ids \<open>{A}\<close> and the default order \<open>[A, Separator, B, C]\<close>, the
  result is \<open>[A, Separator, B, C]\<close>.
\<close>

theorem OrderPluginsToDisplay_unknown_recovery:
  assumes dict: "distinct (map fst plugins)" "set plugins = {(a, A), (b, B), (c, C)}"
    and abc: "distinct [a, b, c]"
    and nonsep: "A \<noteq> SeparatorPlugin" "B \<noteq> SeparatorPlugin" "C \<noteq> SeparatorPlugin"
    and ids: "PluginId sid A = a" "PluginId sid B = b" "PluginId sid C = c"
  shows "OrderPluginsToDisplay sid plugins [a] (Some {a})
           (Some [A, SeparatorPlugin, B, C]) = [A, SeparatorPlugin, B, C]"
proof -
  let ?ids = "ExceptWith (allPluginIds sid (map snd plugins) []) {a}"
  have "snd ` set plugins = {A, B, C}" using dict by simp
  then have s: "set ?ids = {b, c}"
    using abc ids by (auto simp: set_ExceptWith set_allPluginIds)
  then have ne: "?ids \<noteq> []" by auto
  have "map_of plugins a = Some A" using dict by (simp add: map_of_is_SomeI)
  then have w: "addPluginsById plugins [a] [] = [A]" by simp
  have u: "addUnknownInDefaultOrder sid ?ids [A, SeparatorPlugin, B, C] False [A, SeparatorPlugin]
           = [A, SeparatorPlugin, B, C]"
    using abc nonsep ids by (simp add: s)
  show ?thesis
    unfolding OrderPluginsToDisplay_def Let_def w
    using ne nonsep u by (simp add: addSeparatorIfNeeded_def)
qed

theorem OrderPluginsToDisplay_unknown_recovery_witness:
  "OrderPluginsToDisplay 0
     [(3, COMPlugin 3 ''C'' None False), (1, DefaultPlugin 1 ''A'' None),
      (2, COMPlugin 2 ''B'' None True)]
     [1] (Some {1})
     (Some [DefaultPlugin 1 ''A'' None, SeparatorPlugin, COMPlugin 2 ''B'' None True,
            COMPlugin 3 ''C'' None False]) =
   [DefaultPlugin 1 ''A'' None, SeparatorPlugin, COMPlugin 2 ''B'' None True,
    COMPlugin 3 ''C'' None False]"
  by (rule OrderPluginsToDisplay_unknown_recovery) auto

subsection \<open>No id twice\<close>

text \<open>
  Claim C5, as stated, fails: the walk over \<open>displayOrder\<close> adds a plugin every time
  its id comes up. With the single plugin of id 1, the display order \<open>[1, 1]\<close> and the
  known ids \<open>{1}\<close> (accurate: the only id of the dictionary in the display order is
  known), the id 1 is twice in the result.
\<close>

theorem OrderPluginsToDisplay_repeated_id_counterexample:
  "count_list (map (PluginId 0)
      (OrderPluginsToDisplay 0 [(1, DefaultPlugin 1 ''A'' None)] [1, 1] (Some {1}) None)) 1 = 2"
  by (simp add: OrderPluginsToDisplay_def ExceptWith_def addSeparatorIfNeeded_def
      insort_insert_key_def)

text \<open>
  The same happens when the default order has an unknown plugin twice, and when the
  dictionary holds a plugin under a key that is not the id of the plugin. And the
  separators, which all have one id, can be in the result more than once.
\<close>

lemma OrderPluginsToDisplay_repeated_default_entry:
  "OrderPluginsToDisplay 0
     [(1, DefaultPlugin 1 ''A'' None), (2, COMPlugin 2 ''B'' None True)] [1] (Some {1})
     (Some [COMPlugin 2 ''B'' None True, COMPlugin 2 ''B'' None True]) =
   [DefaultPlugin 1 ''A'' None, SeparatorPlugin, COMPlugin 2 ''B'' None True,
    COMPlugin 2 ''B'' None True]"
  by (simp add: OrderPluginsToDisplay_def ExceptWith_def addSeparatorIfNeeded_def
      insort_insert_key_def)

lemma OrderPluginsToDisplay_foreign_key:
  "OrderPluginsToDisplay 0 [(1, DefaultPlugin 2 ''B'' None)] [1] (Some {1})
     (Some [DefaultPlugin 2 ''B'' None]) =
   [DefaultPlugin 2 ''B'' None, SeparatorPlugin, DefaultPlugin 2 ''B'' None]"
  by (simp add: OrderPluginsToDisplay_def ExceptWith_def addSeparatorIfNeeded_def
      insort_insert_key_def)

lemma OrderPluginsToDisplay_two_separators:
  "OrderPluginsToDisplay 0
     [(1, DefaultPlugin 1 ''A'' None), (2, COMPlugin 2 ''B'' None True),
      (3, COMPlugin 3 ''C'' None True)] [1] (Some {1})
     (Some [COMPlugin 2 ''B'' None True, SeparatorPlugin, COMPlugin 3 ''C'' None True]) =
   [DefaultPlugin 1 ''A'' None, SeparatorPlugin, COMPlugin 2 ''B'' None True, SeparatorPlugin,
    COMPlugin 3 ''C'' None True]"
  by (simp add: OrderPluginsToDisplay_def ExceptWith_def addSeparatorIfNeeded_def
      insort_insert_key_def)

text \<open>
  The ids of the entries of the result that are not separators, when every plugin of
  the dictionary that is not a separator is stored under its own id: the ids of
  \<open>displayOrder\<close> for which the dictionary holds such a plugin, and then the ids of the
  unknown plugins.
\<close>

lemma addPluginsById_nonseparator_ids:
  assumes keys: "\<forall>(k, p) \<in> set plugins. p \<noteq> SeparatorPlugin \<longrightarrow> PluginId sid p = k"
  shows "map (PluginId sid) (filter (\<lambda>p. p \<noteq> SeparatorPlugin) (addPluginsById plugins ids acc)) =
         map (PluginId sid) (filter (\<lambda>p. p \<noteq> SeparatorPlugin) acc) @
         filter (holdsPlugin plugins) ids"
proof (induction ids arbitrary: acc)
  case Nil
  show ?case by simp
next
  case (Cons i ids)
  show ?case
  proof (cases "map_of plugins i")
    case None
    with Cons show ?thesis by (simp add: holdsPlugin_def)
  next
    case (Some p)
    then have "(i, p) \<in> set plugins" by (rule map_of_SomeD)
    with keys have "p \<noteq> SeparatorPlugin \<Longrightarrow> PluginId sid p = i" by auto
    with Some Cons [of "acc @ [p]"] show ?thesis by (simp add: holdsPlugin_def)
  qed
qed

lemma holdsPlugin_key: "holdsPlugin plugins i \<Longrightarrow> i \<in> fst ` set plugins"
  by (auto simp: holdsPlugin_def split: option.splits dest!: map_of_SomeD intro: rev_image_eqI)

lemma OrderPluginsToDisplay_nonseparator_ids:
  assumes keys: "\<forall>(k, p) \<in> set plugins. p \<noteq> SeparatorPlugin \<longrightarrow> PluginId sid p = k"
  shows "map (PluginId sid) (filter (\<lambda>p. p \<noteq> SeparatorPlugin)
           (OrderPluginsToDisplay sid plugins displayOrder knownPlugins pluginsInDefaultOrder)) =
         filter (holdsPlugin plugins) displayOrder @
         (case knownPlugins of
            None \<Rightarrow> []
          | Some known \<Rightarrow>
              (case pluginsInDefaultOrder of
                 None \<Rightarrow> filter (holdsPlugin plugins)
                            (ExceptWith (allPluginIds sid (map snd plugins) []) known)
               | Some d \<Rightarrow>
                   map (PluginId sid)
                     (filter (\<lambda>p. p \<noteq> SeparatorPlugin \<and>
                        PluginId sid p \<in> PluginId sid ` snd ` set plugins \<and>
                        PluginId sid p \<notin> known) d)))"
proof -
  let ?ns = "\<lambda>p. p \<noteq> SeparatorPlugin"
  let ?W = "addPluginsById plugins displayOrder []"
  have W: "map (PluginId sid) (filter ?ns ?W) = filter (holdsPlugin plugins) displayOrder"
    using addPluginsById_nonseparator_ids [OF keys, of displayOrder "[]"] by simp
  show ?thesis
  proof (cases knownPlugins)
    case None
    with W show ?thesis by (simp add: OrderPluginsToDisplay_def)
  next
    case (Some known)
    let ?ids = "ExceptWith (allPluginIds sid (map snd plugins) []) known"
    have ids: "set ?ids = PluginId sid ` snd ` set plugins - known"
      by (simp add: set_ExceptWith set_allPluginIds)
    show ?thesis
    proof (cases "?ids = []")
      case True
      then have "PluginId sid ` snd ` set plugins - known = {}" using ids by simp
      then have "filter (\<lambda>p. p \<noteq> SeparatorPlugin \<and>
                        PluginId sid p \<in> PluginId sid ` snd ` set plugins \<and>
                        PluginId sid p \<notin> known) d = []" for d
        by (auto simp: filter_empty_conv)
      with True Some W show ?thesis
        by (simp add: OrderPluginsToDisplay_def split: option.split)
    next
      case False
      show ?thesis
      proof (cases pluginsInDefaultOrder)
        case None
        have "map (PluginId sid) (filter ?ns (addPluginsById plugins ?ids (addSeparatorIfNeeded ?W)))
              = filter (holdsPlugin plugins) displayOrder @ filter (holdsPlugin plugins) ?ids"
          using addPluginsById_nonseparator_ids [OF keys, of ?ids "addSeparatorIfNeeded ?W"]
          by (simp add: addSeparatorIfNeeded_nonseparators W)
        with Some None False show ?thesis
          by (simp add: OrderPluginsToDisplay_def Let_def)
      next
        case (Some d)
        have eq: "(\<lambda>p. p \<noteq> SeparatorPlugin \<and> PluginId sid p \<in> set ?ids) =
                  (\<lambda>p. p \<noteq> SeparatorPlugin \<and>
                        PluginId sid p \<in> PluginId sid ` snd ` set plugins \<and>
                        PluginId sid p \<notin> known)"
          unfolding ids by auto
        have "map (PluginId sid) (filter ?ns
                (addUnknownInDefaultOrder sid ?ids d False (addSeparatorIfNeeded ?W)))
              = filter (holdsPlugin plugins) displayOrder @
                map (PluginId sid) (filter (\<lambda>p. p \<noteq> SeparatorPlugin \<and>
                        PluginId sid p \<in> PluginId sid ` snd ` set plugins \<and>
                        PluginId sid p \<notin> known) d)"
          unfolding addUnknown_nonseparators addSeparatorIfNeeded_nonseparators eq [symmetric]
          by (simp add: W)
        with Some \<open>knownPlugins = Some known\<close> False show ?thesis
          by (simp add: OrderPluginsToDisplay_def Let_def)
      qed
    qed
  qed
qed

text \<open>
  With such a dictionary and known ids that are accurate, the two conditions of the
  amended claim are what it takes, no more and no less, for the result to have no id
  twice.
\<close>

lemma OrderPluginsToDisplay_ids_distinct_iff:
  assumes keys: "\<forall>(k, p) \<in> set plugins. p \<noteq> SeparatorPlugin \<longrightarrow> PluginId sid p = k"
    and known: "case knownPlugins of None \<Rightarrow> True
               | Some known \<Rightarrow> \<forall>i \<in> set displayOrder. i \<in> fst ` set plugins \<longrightarrow> i \<in> known"
  shows "distinct (map (PluginId sid) (filter (\<lambda>p. p \<noteq> SeparatorPlugin)
           (OrderPluginsToDisplay sid plugins displayOrder knownPlugins pluginsInDefaultOrder)))
     \<longleftrightarrow>
         distinct (filter (holdsPlugin plugins) displayOrder) \<and>
         (case (knownPlugins, pluginsInDefaultOrder) of
            (Some known, Some d) \<Rightarrow>
              distinct (map (PluginId sid)
                (filter (\<lambda>p. p \<noteq> SeparatorPlugin \<and>
                   PluginId sid p \<in> PluginId sid ` snd ` set plugins \<and>
                   PluginId sid p \<notin> known) d))
          | _ \<Rightarrow> True)"
proof (cases knownPlugins)
  case None
  then show ?thesis by (simp add: OrderPluginsToDisplay_nonseparator_ids [OF keys])
next
  case (Some kn)
  have sub: "set (filter (holdsPlugin plugins) displayOrder) \<subseteq> kn"
    using known Some by (auto dest: holdsPlugin_key)
  show ?thesis
  proof (cases pluginsInDefaultOrder)
    case None
    let ?ids = "ExceptWith (allPluginIds sid (map snd plugins) []) kn"
    have "distinct (filter (holdsPlugin plugins) ?ids)"
      by (simp add: distinct_ExceptWith)
    moreover have "set (filter (holdsPlugin plugins) ?ids) \<inter> kn = {}"
      by (auto simp: set_ExceptWith)
    ultimately show ?thesis
      using sub Some None by (auto simp: OrderPluginsToDisplay_nonseparator_ids [OF keys])
  next
    case d: (Some d)
    have "set (map (PluginId sid) (filter (\<lambda>p. p \<noteq> SeparatorPlugin \<and>
                   PluginId sid p \<in> PluginId sid ` snd ` set plugins \<and>
                   PluginId sid p \<notin> kn) d)) \<inter> kn = {}"
      by auto
    with sub Some d show ?thesis
      by (auto simp: OrderPluginsToDisplay_nonseparator_ids [OF keys])
  qed
qed

text \<open>
  Claim C5, amended. Let every plugin of the dictionary that is not a separator be
  stored under its own id, and let \<open>knownPlugins\<close> (where there is one) hold every id of
  the dictionary that is in \<open>displayOrder\<close>. When \<open>displayOrder\<close> does not repeat an id
  for which the dictionary holds a plugin that is not a separator (the id of the
  separator and ids that the dictionary does not hold may come up any number of
  times), and the default order (where it is used) does not repeat an unknown plugin
  that is not a separator, then the entries of the result that are not separators have
  distinct ids.
\<close>

theorem OrderPluginsToDisplay_ids_distinct:
  assumes keys: "\<forall>(k, p) \<in> set plugins. p \<noteq> SeparatorPlugin \<longrightarrow> PluginId sid p = k"
    and order: "distinct (filter (holdsPlugin plugins) displayOrder)"
    and dflt: "case (knownPlugins, pluginsInDefaultOrder) of
                 (Some known, Some d) \<Rightarrow>
                   distinct (map (PluginId sid)
                     (filter (\<lambda>p. p \<noteq> SeparatorPlugin \<and>
                        PluginId sid p \<in> PluginId sid ` snd ` set plugins \<and>
                        PluginId sid p \<notin> known) d))
               | _ \<Rightarrow> True"
    and known: "case knownPlugins of None \<Rightarrow> True
               | Some known \<Rightarrow> \<forall>i \<in> set displayOrder. i \<in> fst ` set plugins \<longrightarrow> i \<in> known"
  shows "distinct (map (PluginId sid) (filter (\<lambda>p. p \<noteq> SeparatorPlugin)
           (OrderPluginsToDisplay sid plugins displayOrder knownPlugins pluginsInDefaultOrder)))"
  using OrderPluginsToDisplay_ids_distinct_iff [OF keys known] order dflt by blast

theorem OrderPluginsToDisplay_ids_distinct_witness:
  "distinct (map (PluginId 0) (filter (\<lambda>p. p \<noteq> SeparatorPlugin)
     (OrderPluginsToDisplay 0
        [(0, SeparatorPlugin), (1, DefaultPlugin 1 ''A'' None), (2, COMPlugin 2 ''B'' None True),
         (3, COMPlugin 3 ''C'' None False)]
        [1, 0, 7, 2, 0, 7] (Some {0, 1, 2})
        (Some [DefaultPlugin 1 ''A'' None, DefaultPlugin 1 ''A'' None, SeparatorPlugin,
               COMPlugin 2 ''B'' None True, SeparatorPlugin, COMPlugin 3 ''C'' None False]))))"
  by (rule OrderPluginsToDisplay_ids_distinct) (simp_all add: holdsPlugin_def)

text \<open>The result for the arguments of the witness.\<close>

lemma OrderPluginsToDisplay_ids_distinct_example:
  "OrderPluginsToDisplay 0
        [(0, SeparatorPlugin), (1, DefaultPlugin 1 ''A'' None), (2, COMPlugin 2 ''B'' None True),
         (3, COMPlugin 3 ''C'' None False)]
        [1, 0, 7, 2, 0, 7] (Some {0, 1, 2})
        (Some [DefaultPlugin 1 ''A'' None, DefaultPlugin 1 ''A'' None, SeparatorPlugin,
               COMPlugin 2 ''B'' None True, SeparatorPlugin, COMPlugin 3 ''C'' None False]) =
   [DefaultPlugin 1 ''A'' None, SeparatorPlugin, COMPlugin 2 ''B'' None True, SeparatorPlugin,
    COMPlugin 3 ''C'' None False]"
  by (simp add: OrderPluginsToDisplay_def ExceptWith_def addSeparatorIfNeeded_def
      insort_insert_key_def)

subsection \<open>No two separators side by side\<close>

lemma adjacentSeparators_snoc:
  "adjacentSeparators (xs @ [p]) =
     (adjacentSeparators xs \<or> (xs \<noteq> [] \<and> last xs = SeparatorPlugin \<and> p = SeparatorPlugin))"
  by (induction xs rule: adjacentSeparators.induct) auto

lemma addPluginsById_not_adjacent:
  assumes "\<forall>p \<in> snd ` set plugins. p \<noteq> SeparatorPlugin"
  shows "\<not> adjacentSeparators acc \<Longrightarrow> \<not> adjacentSeparators (addPluginsById plugins ids acc)"
proof (induction ids arbitrary: acc)
  case Nil
  then show ?case by simp
next
  case (Cons i ids)
  show ?case
  proof (cases "map_of plugins i")
    case None
    with Cons show ?thesis by simp
  next
    case (Some p)
    then have "(i, p) \<in> set plugins" by (rule map_of_SomeD)
    with assms have "p \<noteq> SeparatorPlugin" by force
    with Cons.prems have "\<not> adjacentSeparators (acc @ [p])"
      by (simp add: adjacentSeparators_snoc)
    with Cons.IH Some show ?thesis by simp
  qed
qed

lemma addUnknown_not_adjacent:
  "\<not> adjacentSeparators acc \<Longrightarrow> (prev \<Longrightarrow> acc \<noteq> [] \<and> last acc \<noteq> SeparatorPlugin)
   \<Longrightarrow> \<not> adjacentSeparators (addUnknownInDefaultOrder sid ids d prev acc)"
proof (induction d arbitrary: prev acc)
  case Nil
  then show ?case by simp
next
  case (Cons p d)
  show ?case
  proof (cases "p = SeparatorPlugin")
    case True
    show ?thesis
    proof (cases prev)
      case True
      with Cons.prems have "\<not> adjacentSeparators (acc @ [p])"
        by (simp add: adjacentSeparators_snoc)
      then have "\<not> adjacentSeparators (addUnknownInDefaultOrder sid ids d False (acc @ [p]))"
        by (rule Cons.IH) simp
      with True \<open>p = SeparatorPlugin\<close> show ?thesis by simp
    next
      case False
      have "\<not> adjacentSeparators (addUnknownInDefaultOrder sid ids d False acc)"
        using Cons.prems(1) by (rule Cons.IH) simp
      with False \<open>p = SeparatorPlugin\<close> show ?thesis by simp
    qed
  next
    case False
    show ?thesis
    proof (cases "PluginId sid p \<in> set ids")
      case True
      from False Cons.prems have "\<not> adjacentSeparators (acc @ [p])"
        by (simp add: adjacentSeparators_snoc)
      then have "\<not> adjacentSeparators (addUnknownInDefaultOrder sid ids d True (acc @ [p]))"
        by (rule Cons.IH) (simp add: False)
      with True False show ?thesis by simp
    next
      case notin: False
      have "\<not> adjacentSeparators (addUnknownInDefaultOrder sid ids d False acc)"
        using Cons.prems(1) by (rule Cons.IH) simp
      with notin False show ?thesis by simp
    qed
  qed
qed

text \<open>
  What the scan of the default order appends starts with a plugin, not with a
  separator: a separator is only appended right after an unknown plugin.
\<close>

lemma addUnknown_starts_with_plugin:
  "\<exists>rest. addUnknownInDefaultOrder sid ids d False acc = acc @ rest \<and>
          (rest = [] \<or> hd rest \<noteq> SeparatorPlugin)"
proof (induction d)
  case Nil
  show ?case by simp
next
  case (Cons p d)
  show ?case
  proof (cases "p \<noteq> SeparatorPlugin \<and> PluginId sid p \<in> set ids")
    case True
    obtain r where "addUnknownInDefaultOrder sid ids d True (acc @ [p]) = (acc @ [p]) @ r"
      using addUnknown_prefix by blast
    with True have "addUnknownInDefaultOrder sid ids (p # d) False acc = acc @ p # r \<and>
                    hd (p # r) \<noteq> SeparatorPlugin"
      by simp
    then show ?thesis by blast
  next
    case False
    then have "addUnknownInDefaultOrder sid ids (p # d) False acc =
               addUnknownInDefaultOrder sid ids d False acc"
      by auto
    with Cons show ?thesis by simp
  qed
qed

lemma addSeparatorIfNeeded_not_adjacent:
  "\<not> adjacentSeparators acc \<Longrightarrow> \<not> adjacentSeparators (addSeparatorIfNeeded acc)"
  by (simp add: addSeparatorIfNeeded_def adjacentSeparators_snoc)

text \<open>
  Claim C10. When no value of the dictionary is a separator, the result has no two
  separators side by side, whatever the display order, the known ids and the default
  order are (a default order with runs of separators included).
\<close>

theorem OrderPluginsToDisplay_no_adjacent_separators:
  assumes "\<forall>p \<in> snd ` set plugins. p \<noteq> SeparatorPlugin"
  shows "\<not> adjacentSeparators
           (OrderPluginsToDisplay sid plugins displayOrder knownPlugins pluginsInDefaultOrder)"
proof -
  let ?walk = "addPluginsById plugins displayOrder []"
  have w: "\<not> adjacentSeparators ?walk"
    using assms by (rule addPluginsById_not_adjacent) simp
  then have s: "\<not> adjacentSeparators (addSeparatorIfNeeded ?walk)"
    by (rule addSeparatorIfNeeded_not_adjacent)
  have u: "\<not> adjacentSeparators
             (addUnknownInDefaultOrder sid ids d False (addSeparatorIfNeeded ?walk))" for ids d
    using s by (rule addUnknown_not_adjacent) simp
  have f: "\<not> adjacentSeparators (addPluginsById plugins ids (addSeparatorIfNeeded ?walk))" for ids
    using assms s by (rule addPluginsById_not_adjacent)
  show ?thesis
    unfolding OrderPluginsToDisplay_def Let_def
    using w u f by (simp split: option.split)
qed

theorem OrderPluginsToDisplay_no_adjacent_separators_witness:
  "\<not> adjacentSeparators
      (OrderPluginsToDisplay 0
         [(1, DefaultPlugin 1 ''A'' None), (2, COMPlugin 2 ''B'' None True)]
         [1] (Some {1})
         (Some [DefaultPlugin 1 ''A'' None, SeparatorPlugin, SeparatorPlugin,
                COMPlugin 2 ''B'' None True, SeparatorPlugin, SeparatorPlugin]))"
  by (rule OrderPluginsToDisplay_no_adjacent_separators) simp

section \<open>Properties of \<open>GetPluginsInDefaultOrder\<close>\<close>

subsection \<open>Separators between the groups of COM plugins\<close>

lemma copyCOMPlugins_prefix: "\<exists>rest. copyCOMPlugins plugins g infos = plugins @ rest"
proof (induction infos arbitrary: plugins g)
  case Nil
  show ?case by simp
next
  case (Cons info infos)
  obtain r where "copyCOMPlugins
     ((if length plugins > 0 \<and> g \<noteq> GroupId info then plugins @ [SeparatorPlugin] else plugins) @ [Plugin info])
     (GroupId info) infos =
     ((if length plugins > 0 \<and> g \<noteq> GroupId info then plugins @ [SeparatorPlugin] else plugins) @ [Plugin info]) @ r"
    using Cons by blast
  then show ?case by (simp add: Let_def)
qed

lemma copyCOMPlugins_snoc:
  "copyCOMPlugins plugins g (infos @ [a]) =
     (let done = copyCOMPlugins plugins g infos;
          current = (if infos = [] then g else GroupId (last infos))
      in (if length done > 0 \<and> current \<noteq> GroupId a then done @ [SeparatorPlugin] else done) @ [Plugin a])"
  by (induction infos arbitrary: plugins g) (simp_all add: Let_def)

lemma copyCOMPlugins_append:
  "copyCOMPlugins plugins g (xs @ ys) =
     copyCOMPlugins (copyCOMPlugins plugins g xs) (if xs = [] then g else GroupId (last xs)) ys"
  by (induction xs arbitrary: plugins g) (simp_all add: Let_def)

lemma addCOMPlugins_prefix: "\<exists>rest. addCOMPlugins plugins infos = plugins @ rest"
  using copyCOMPlugins_prefix by (simp add: addCOMPlugins_def)

text \<open>
  Claim C2. Let \<open>a\<close> and \<open>b\<close> be two beans that follow each other in the list that is
  copied. What is copied up to \<open>a\<close> ends with the plugin of \<open>a\<close>; then comes a separator
  if the group ids of \<open>a\<close> and \<open>b\<close> differ and nothing if they are equal; then comes the
  plugin of \<open>b\<close>. When the list to copy to is empty, the plugin of the first bean comes
  first.
\<close>

theorem addCOMPlugins_separators:
  "(\<exists>rest. addCOMPlugins plugins (pre @ a # b # post) =
      addCOMPlugins plugins (pre @ [a]) @
      (if GroupId a \<noteq> GroupId b then [SeparatorPlugin] else []) @ Plugin b # rest)
   \<and> (\<exists>front. addCOMPlugins plugins (pre @ [a]) = front @ [Plugin a])
   \<and> (\<exists>rest. addCOMPlugins [] (a # post) = Plugin a # rest)"
proof (intro conjI)
  let ?P = "copyCOMPlugins plugins Int32_MaxValue (pre @ [a])"
  obtain front where front: "?P = front @ [Plugin a]"
    by (auto simp: copyCOMPlugins_snoc Let_def)
  then show "\<exists>front. addCOMPlugins plugins (pre @ [a]) = front @ [Plugin a]"
    by (simp add: addCOMPlugins_def)
  let ?Q = "?P @ (if GroupId a \<noteq> GroupId b then [SeparatorPlugin] else []) @ [Plugin b]"
  obtain rest where "copyCOMPlugins ?Q (GroupId b) post = ?Q @ rest"
    using copyCOMPlugins_prefix by blast
  moreover have "copyCOMPlugins plugins Int32_MaxValue (pre @ a # b # post) =
                 copyCOMPlugins ?Q (GroupId b) post"
    using copyCOMPlugins_append [of plugins Int32_MaxValue "pre @ [a]" "b # post"] front
    by (simp add: Let_def)
  ultimately show "\<exists>rest. addCOMPlugins plugins (pre @ a # b # post) =
      addCOMPlugins plugins (pre @ [a]) @
      (if GroupId a \<noteq> GroupId b then [SeparatorPlugin] else []) @ Plugin b # rest"
    by (simp add: addCOMPlugins_def)
  obtain r where "copyCOMPlugins [Plugin a] (GroupId a) post = [Plugin a] @ r"
    using copyCOMPlugins_prefix by blast
  then show "\<exists>rest. addCOMPlugins [] (a # post) = Plugin a # rest"
    by (simp add: addCOMPlugins_def)
qed

subsection \<open>Pipeline plugins\<close>

lemma GetDefaultPlugins_nonempty: "GetDefaultPlugins res plugins settings \<noteq> []"
  by (simp add: GetDefaultPlugins_def Let_def)

text \<open>
  Claim C6. \<open>GetPipelinePlugins\<close> appends nothing when there is no pipeline plugin;
  otherwise it appends one separator, unless the list is empty, and then the pipeline
  plugins in the order of the settings. In \<open>GetPluginsInDefaultOrder\<close>, where the list
  built so far holds the default plugins and so is not empty, asking for the pipeline
  plugins appends the separator and the pipeline plugins to what is returned without
  them.
\<close>

theorem GetPipelinePlugins_appended:
  "GetPipelinePlugins plugins settings =
     (if PipelinePlugins settings = [] then plugins
      else plugins @ (if plugins = [] then [] else [SeparatorPlugin]) @
           map PipelinePlugin (PipelinePlugins settings))
   \<and> GetPluginsInDefaultOrder sid res env reg newGuid executor settings True =
     (case GetPluginsInDefaultOrder sid res env reg newGuid executor settings False of
        Inl e \<Rightarrow> Inl e
      | Inr soFar \<Rightarrow>
          Inr (if PipelinePlugins settings = [] then soFar
               else soFar @ [SeparatorPlugin] @ map PipelinePlugin (PipelinePlugins settings)))"
proof
  show g: "GetPipelinePlugins plugins settings =
     (if PipelinePlugins settings = [] then plugins
      else plugins @ (if plugins = [] then [] else [SeparatorPlugin]) @
           map PipelinePlugin (PipelinePlugins settings))" for plugins
    by (simp add: GetPipelinePlugins_def ToPlugins_def Let_def)
  have ne: "out \<noteq> []"
    if "GetCOMPlugins sid env reg newGuid executor (GetDefaultPlugins res [] settings) = Inr out"
    for out
  proof -
    have "arrangeCOMPlugins sid (GetDefaultPlugins res [] settings) infos \<noteq> []" for infos
    proof -
      obtain rest where "arrangeCOMPlugins sid (GetDefaultPlugins res [] settings) infos
          = GetDefaultPlugins res [] settings @ rest"
        using addCOMPlugins_prefix unfolding arrangeCOMPlugins_def by blast
      then show ?thesis
        using GetDefaultPlugins_nonempty [of res "[]" settings] by simp
    qed
    with that show ?thesis
      by (auto simp: GetCOMPlugins_def split: sum.splits)
  qed
  show "GetPluginsInDefaultOrder sid res env reg newGuid executor settings True =
     (case GetPluginsInDefaultOrder sid res env reg newGuid executor settings False of
        Inl e \<Rightarrow> Inl e
      | Inr soFar \<Rightarrow>
          Inr (if PipelinePlugins settings = [] then soFar
               else soFar @ [SeparatorPlugin] @ map PipelinePlugin (PipelinePlugins settings)))"
    using ne by (auto simp: GetPluginsInDefaultOrder_def Let_def g split: sum.splits)
qed

subsection \<open>Sorting and removing duplicates\<close>

lemma set_insertByComparison: "set (insertByComparison cmp t ks) = insert t (set ks)"
  by (induction ks) auto

lemma set_foldl_insertByComparison:
  "set (foldl (\<lambda>done t. insertByComparison cmp t done) acc xs) = set acc \<union> set xs"
  by (induction xs arbitrary: acc) (auto simp: set_insertByComparison)

lemma set_Sort: "set (Sort cmp xs) = set xs"
  by (simp add: Sort_def set_foldl_insertByComparison)

lemma length_insertByComparison: "length (insertByComparison cmp t ks) = Suc (length ks)"
  by (induction ks) auto

lemma length_Sort: "length (Sort cmp xs) = length xs"
proof -
  have "length (foldl (\<lambda>done t. insertByComparison cmp t done) acc xs) = length acc + length xs"
    for acc
    by (induction xs arbitrary: acc) (auto simp: length_insertByComparison)
  then show ?thesis by (simp add: Sort_def)
qed

lemma sorted_wrt_insertByComparison:
  assumes lt: "\<And>a b. a \<in> A \<Longrightarrow> b \<in> A \<Longrightarrow> cmp a b < 0 \<Longrightarrow> le a b"
    and ge: "\<And>a b. a \<in> A \<Longrightarrow> b \<in> A \<Longrightarrow> \<not> cmp a b < 0 \<Longrightarrow> le b a"
    and trans: "\<And>a b c. a \<in> A \<Longrightarrow> b \<in> A \<Longrightarrow> c \<in> A \<Longrightarrow> le a b \<Longrightarrow> le b c \<Longrightarrow> le a c"
  shows "t \<in> A \<Longrightarrow> set ks \<subseteq> A \<Longrightarrow> sorted_wrt le ks \<Longrightarrow> sorted_wrt le (insertByComparison cmp t ks)"
proof (induction ks)
  case Nil
  show ?case by simp
next
  case (Cons k ks)
  show ?case
  proof (cases "cmp t k < 0")
    case True
    with Cons.prems have tk: "le t k" by (simp add: lt)
    have "le t x" if "x \<in> set ks" for x
    proof -
      from that Cons.prems have "le k x" "x \<in> A" by auto
      with tk Cons.prems show ?thesis using trans [of t k x] by simp
    qed
    with True tk Cons.prems show ?thesis by auto
  next
    case False
    with Cons.prems have "le k t" by (simp add: ge)
    moreover have "sorted_wrt le (insertByComparison cmp t ks)"
      using Cons by simp
    ultimately show ?thesis
      using False Cons.prems by (auto simp: set_insertByComparison)
  qed
qed

lemma sorted_wrt_Sort:
  assumes lt: "\<And>a b. a \<in> A \<Longrightarrow> b \<in> A \<Longrightarrow> cmp a b < 0 \<Longrightarrow> le a b"
    and ge: "\<And>a b. a \<in> A \<Longrightarrow> b \<in> A \<Longrightarrow> \<not> cmp a b < 0 \<Longrightarrow> le b a"
    and trans: "\<And>a b c. a \<in> A \<Longrightarrow> b \<in> A \<Longrightarrow> c \<in> A \<Longrightarrow> le a b \<Longrightarrow> le b c \<Longrightarrow> le a c"
    and sub: "set xs \<subseteq> A"
  shows "sorted_wrt le (Sort cmp xs)"
proof -
  have "sorted_wrt le (foldl (\<lambda>done t. insertByComparison cmp t done) acc ys)"
    if "set acc \<subseteq> A" "set ys \<subseteq> A" "sorted_wrt le acc" for acc ys
    using that
  proof (induction ys arbitrary: acc)
    case Nil
    then show ?case by simp
  next
    case (Cons y ys)
    have "sorted_wrt le (insertByComparison cmp y acc)"
    proof (rule sorted_wrt_insertByComparison [of A cmp le])
      show "cmp a b < 0 \<Longrightarrow> le a b" if "a \<in> A" "b \<in> A" for a b
        using that by (rule lt)
      show "\<not> cmp a b < 0 \<Longrightarrow> le b a" if "a \<in> A" "b \<in> A" for a b
        using that by (rule ge)
      show "le a b \<Longrightarrow> le b c \<Longrightarrow> le a c" if "a \<in> A" "b \<in> A" "c \<in> A" for a b c
        using that by (rule trans)
      show "y \<in> A" "set acc \<subseteq> A" "sorted_wrt le acc"
        using Cons.prems by simp_all
    qed
    moreover have "set (insertByComparison cmp y acc) \<subseteq> A"
      using Cons.prems by (simp add: set_insertByComparison)
    ultimately show ?case using Cons by simp
  qed
  with sub show ?thesis by (simp add: Sort_def)
qed

lemma sorted_Sort_compareIds:
  "sorted (map (\<lambda>x. PluginId sid (Plugin x)) (Sort (compareIds sid) xs))"
  unfolding sorted_map
  by (rule sorted_wrt_Sort [where A = UNIV])
     (auto simp: compareIds_def CompareTo_def split: if_splits)

lemma removeDuplicates_unfold:
  "removeDuplicates sid (Suc (length pre)) (pre @ a # b # post) =
     removeDuplicates sid (length pre)
       (if PluginId sid (Plugin b) = PluginId sid (Plugin a) then pre @ a # post
        else pre @ a # b # post)"
  by (simp add: RemoveAt_def nth_append)

lemma split_at_two:
  assumes "Suc j < length xs"
  obtains pre a b post where "xs = pre @ a # b # post" "length pre = j"
proof -
  from assms have "drop j xs = xs ! j # xs ! Suc j # drop (Suc (Suc j)) xs"
    by (simp add: Cons_nth_drop_Suc Suc_lessD)
  then have "xs = take j xs @ xs ! j # xs ! Suc j # drop (Suc (Suc j)) xs"
    using append_take_drop_id [of j xs] by simp
  moreover from assms have "length (take j xs) = j" by simp
  ultimately show ?thesis using that by blast
qed

lemma find_append_cases:
  "find P (xs @ ys) = (case find P xs of None \<Rightarrow> find P ys | Some x \<Rightarrow> Some x)"
  by (induction xs) auto

lemma removeDuplicates_find:
  "j < length xs \<Longrightarrow>
   find (\<lambda>y. PluginId sid (Plugin y) = k) (removeDuplicates sid j xs) =
   find (\<lambda>y. PluginId sid (Plugin y) = k) xs"
proof (induction j arbitrary: xs)
  case 0
  show ?case by simp
next
  case (Suc j)
  then obtain pre a b post where xs: "xs = pre @ a # b # post" and j: "length pre = j"
    using split_at_two by blast
  show ?case
  proof (cases "PluginId sid (Plugin b) = PluginId sid (Plugin a)")
    case True
    have "find (\<lambda>y. PluginId sid (Plugin y) = k) (removeDuplicates sid j (pre @ a # post)) =
          find (\<lambda>y. PluginId sid (Plugin y) = k) (pre @ a # post)"
      using j by (intro Suc.IH) simp
    also have "\<dots> = find (\<lambda>y. PluginId sid (Plugin y) = k) (pre @ a # b # post)"
      using True by (simp add: find_append_cases split: option.splits)
    finally show ?thesis
      using True j removeDuplicates_unfold [of sid pre a b post] by (simp add: xs)
  next
    case False
    have "find (\<lambda>y. PluginId sid (Plugin y) = k) (removeDuplicates sid j xs) =
          find (\<lambda>y. PluginId sid (Plugin y) = k) xs"
      using Suc.prems by (intro Suc.IH) simp
    then show ?thesis
      using False j removeDuplicates_unfold [of sid pre a b post] by (simp add: xs)
  qed
qed

lemma removeDuplicates_distinct:
  "j < length xs \<Longrightarrow> sorted (map (\<lambda>x. PluginId sid (Plugin x)) xs) \<Longrightarrow>
   distinct (map (\<lambda>x. PluginId sid (Plugin x)) (drop j xs)) \<Longrightarrow>
   distinct (map (\<lambda>x. PluginId sid (Plugin x)) (removeDuplicates sid j xs))"
proof (induction j arbitrary: xs)
  case 0
  then show ?case by simp
next
  case (Suc j)
  let ?key = "\<lambda>x. PluginId sid (Plugin x)"
  from Suc.prems obtain pre a b post where xs: "xs = pre @ a # b # post" and j: "length pre = j"
    using split_at_two by blast
  from Suc.prems(3) have d: "distinct (map ?key (b # post))"
    by (simp add: xs j)
  from Suc.prems(2) have s: "sorted (map ?key pre @ ?key a # ?key b # map ?key post)"
    by (simp add: xs)
  show ?case
  proof (cases "?key b = ?key a")
    case True
    have "distinct (map ?key (removeDuplicates sid j (pre @ a # post)))"
    proof (rule Suc.IH)
      show "j < length (pre @ a # post)" using j by simp
      show "sorted (map ?key (pre @ a # post))"
        using s by (auto simp: sorted_append)
      show "distinct (map ?key (drop j (pre @ a # post)))"
        using d True j by simp
    qed
    then show ?thesis
      using True j removeDuplicates_unfold [of sid pre a b post] by (simp add: xs)
  next
    case False
    have "distinct (map ?key (removeDuplicates sid j xs))"
    proof (rule Suc.IH)
      show "j < length xs" using Suc.prems by simp
      show "sorted (map ?key xs)" by (rule Suc.prems)
      from s have "?key a \<le> ?key b" "\<forall>x \<in> set post. ?key b \<le> ?key x"
        by (auto simp: sorted_append)
      with False have "?key a \<notin> ?key ` set (b # post)" by force
      with d show "distinct (map ?key (drop j xs))"
        using j by (simp add: xs)
    qed
    then show ?thesis
      using False j removeDuplicates_unfold [of sid pre a b post] by (simp add: xs)
  qed
qed

lemma removeDuplicates_subset:
  "j < length xs \<Longrightarrow> set (removeDuplicates sid j xs) \<subseteq> set xs"
proof (induction j arbitrary: xs)
  case 0
  show ?case by simp
next
  case (Suc j)
  then obtain pre a b post where xs: "xs = pre @ a # b # post" and j: "length pre = j"
    using split_at_two by blast
  have "set (removeDuplicates sid j (pre @ a # post)) \<subseteq> set (pre @ a # post)"
    using j by (intro Suc.IH) simp
  moreover have "set (removeDuplicates sid j xs) \<subseteq> set xs"
    using Suc.prems by (intro Suc.IH) simp
  ultimately show ?case
    using j removeDuplicates_unfold [of sid pre a b post] by (auto simp: xs)
qed

lemma find_key_set:
  "(find (\<lambda>y. f y = k) xs = None) = (k \<notin> f ` set xs)"
  by (auto simp: find_None_iff)

text \<open>
  After the first sort and the removal loop no id is left twice, the ids are those of
  the beans collected, and the bean kept for an id is the first one of that id in the
  sorted list.
\<close>

lemma sortAndRemoveDuplicates_once:
  "distinct (map (\<lambda>x. PluginId sid (Plugin x)) (sortAndRemoveDuplicates sid infos))
   \<and> (\<lambda>x. PluginId sid (Plugin x)) ` set (sortAndRemoveDuplicates sid infos) =
     (\<lambda>x. PluginId sid (Plugin x)) ` set infos
   \<and> set (sortAndRemoveDuplicates sid infos) \<subseteq> set infos
   \<and> (1 < length infos \<longrightarrow>
        find (\<lambda>y. PluginId sid (Plugin y) = k) (sortAndRemoveDuplicates sid infos) =
        find (\<lambda>y. PluginId sid (Plugin y) = k) (Sort (compareIds sid) infos))"
proof (cases "1 < length infos")
  case False
  then have "infos = [] \<or> (\<exists>x. infos = [x])"
    by (cases infos) auto
  then show ?thesis by (auto simp: sortAndRemoveDuplicates_def)
next
  case True
  let ?key = "\<lambda>x. PluginId sid (Plugin x)"
  let ?s = "Sort (compareIds sid) infos"
  have len: "length ?s - 1 < length ?s" using True by (simp add: length_Sort)
  have r: "sortAndRemoveDuplicates sid infos = removeDuplicates sid (length ?s - 1) ?s"
    using True by (simp add: sortAndRemoveDuplicates_def Let_def)
  have one: "distinct (map ?key l)" if "length l = 1" for l :: "COMPluginInfo list"
    using that by (cases l) auto
  have "length (drop (length ?s - 1) ?s) = 1" using len by simp
  then have "distinct (map ?key (drop (length ?s - 1) ?s))"
    by (rule one)
  with len have d: "distinct (map ?key (removeDuplicates sid (length ?s - 1) ?s))"
    by (intro removeDuplicates_distinct sorted_Sort_compareIds)
  have f: "find (\<lambda>y. ?key y = k') (removeDuplicates sid (length ?s - 1) ?s) =
           find (\<lambda>y. ?key y = k') ?s" for k'
    using len by (rule removeDuplicates_find)
  have "k' \<in> ?key ` set (removeDuplicates sid (length ?s - 1) ?s) \<longleftrightarrow> k' \<in> ?key ` set ?s" for k'
    using f [of k'] find_key_set [of ?key k' "removeDuplicates sid (length ?s - 1) ?s"]
      find_key_set [of ?key k' ?s]
    by simp
  then have k: "?key ` set (removeDuplicates sid (length ?s - 1) ?s) = ?key ` set infos"
    by (auto simp: set_Sort)
  have "set (removeDuplicates sid (length ?s - 1) ?s) \<subseteq> set infos"
    using removeDuplicates_subset [OF len] by (simp add: set_Sort)
  with d k f show ?thesis unfolding r by simp
qed

lemma compareGroups_without_overflow:
  fixes a b :: COMPluginInfo
  assumes "0 \<le> sint (GroupId a)" "0 \<le> sint (GroupPosition a)"
    and "0 \<le> sint (GroupId b)" "0 \<le> sint (GroupPosition b)"
  shows "compareGroups a b =
     (if GroupId a = GroupId b then sint (GroupPosition a) - sint (GroupPosition b)
      else sint (GroupId a) - sint (GroupId b))"
proof -
  have diff: "sint (x - y) = sint x - sint y" if "0 \<le> sint x" "0 \<le> sint y" for x y :: int32
  proof -
    have "sint x < 2 ^ 31" "sint y < 2 ^ 31"
      using sint_lt [of x] sint_lt [of y] by simp_all
    with that have "- (2 ^ 31) \<le> sint x - sint y" "sint x - sint y < 2 ^ 31" by simp_all
    then show ?thesis
      by (simp add: sint_word_diff signed_take_bit_int_eq_self)
  qed
  show ?thesis
    using assms by (simp add: compareGroups_def Let_def diff)
qed

lemma sorted_Sort_compareGroups:
  assumes "\<forall>x \<in> set xs. 0 \<le> sint (GroupId x) \<and> 0 \<le> sint (GroupPosition x)"
  shows "sorted_wrt groupOrder (Sort compareGroups xs)"
proof (rule sorted_wrt_Sort [where A = "{x :: COMPluginInfo. 0 \<le> sint (GroupId x) \<and> 0 \<le> sint (GroupPosition x)}"])
  show "set xs \<subseteq> {x. 0 \<le> sint (GroupId x) \<and> 0 \<le> sint (GroupPosition x)}"
    using assms by auto
next
  fix a b :: COMPluginInfo
  assume "a \<in> {x. 0 \<le> sint (GroupId x) \<and> 0 \<le> sint (GroupPosition x)}"
    "b \<in> {x. 0 \<le> sint (GroupId x) \<and> 0 \<le> sint (GroupPosition x)}"
  then have c: "compareGroups a b =
     (if GroupId a = GroupId b then sint (GroupPosition a) - sint (GroupPosition b)
      else sint (GroupId a) - sint (GroupId b))"
    by (simp add: compareGroups_without_overflow)
  show "groupOrder a b" if "compareGroups a b < 0"
    using that unfolding c groupOrder_def by (auto split: if_splits)
  show "groupOrder b a" if "\<not> compareGroups a b < 0"
  proof -
    have "sint (GroupId a) \<noteq> sint (GroupId b)" if "GroupId a \<noteq> GroupId b"
      using that by (auto dest: signed_word_eqI)
    with \<open>\<not> compareGroups a b < 0\<close> show ?thesis
      unfolding c groupOrder_def by (auto split: if_splits)
  qed
next
  fix a b c :: COMPluginInfo
  assume "groupOrder a b" "groupOrder b c"
  then show "groupOrder a c"
    unfolding groupOrder_def by auto
qed

text \<open>
  When no group id and no position is negative, the subtractions do not wrap around:
  the list that is copied is in the order of groups and positions, and it still has
  every id once.
\<close>

lemma arrangeCOMPlugins_without_overflow:
  assumes "\<forall>x \<in> set infos. 0 \<le> sint (GroupId x) \<and> 0 \<le> sint (GroupPosition x)"
  shows "sorted_wrt groupOrder (Sort compareGroups (sortAndRemoveDuplicates sid infos))
    \<and> distinct (map (\<lambda>x. PluginId sid (Plugin x))
         (Sort compareGroups (sortAndRemoveDuplicates sid infos)))
    \<and> (\<lambda>x. PluginId sid (Plugin x)) ` set (Sort compareGroups (sortAndRemoveDuplicates sid infos))
       = (\<lambda>x. PluginId sid (Plugin x)) ` set infos"
proof (intro conjI)
  let ?d = "sortAndRemoveDuplicates sid infos"
  have sub: "set ?d \<subseteq> set infos" using sortAndRemoveDuplicates_once by blast
  with assms show "sorted_wrt groupOrder (Sort compareGroups ?d)"
    by (intro sorted_Sort_compareGroups) auto
  have "distinct (map (\<lambda>x. PluginId sid (Plugin x)) ?d)"
    using sortAndRemoveDuplicates_once by blast
  then have "card ((\<lambda>x. PluginId sid (Plugin x)) ` set ?d) = length ?d"
    using distinct_card [of "map (\<lambda>x. PluginId sid (Plugin x)) ?d"] by simp
  then have "card (set (map (\<lambda>x. PluginId sid (Plugin x)) (Sort compareGroups ?d)))
      = length (map (\<lambda>x. PluginId sid (Plugin x)) (Sort compareGroups ?d))"
    by (simp add: set_Sort length_Sort)
  then show "distinct (map (\<lambda>x. PluginId sid (Plugin x)) (Sort compareGroups ?d))"
    by (rule card_distinct)
  show "(\<lambda>x. PluginId sid (Plugin x)) ` set (Sort compareGroups ?d)
       = (\<lambda>x. PluginId sid (Plugin x)) ` set infos"
    using sortAndRemoveDuplicates_once [of sid infos] by (simp add: set_Sort)
qed

subsection \<open>The order of the groups\<close>

text \<open>
  Claim C1 asks for the plugins in ascending order of their group ids. The comparison
  delegate subtracts the group ids as \<open>int\<close>s, and the difference of 2 and
  \<open>-2147483647\<close> wraps around to a negative number: the plugin of group 2 is put in
  front of the plugin of group \<open>-2147483647\<close>. Nor is the order that of the unsigned
  group ids of the plugin interface: the group id 3000000000 is the \<open>int\<close>
  \<open>-1294967296\<close>, and its plugin is put in front of the plugin of group 0. The lists
  have two entries, so this does not depend on how \<open>Sort\<close> goes about its work.
\<close>

theorem arrangeCOMPlugins_group_order_overflow:
  "arrangeCOMPlugins 0 []
     [\<lparr>Plugin = COMPlugin 1 ''P'' None True, GroupId = 2, GroupPosition = 0\<rparr>,
      \<lparr>Plugin = COMPlugin 2 ''Q'' None True, GroupId = - 2147483647, GroupPosition = 0\<rparr>]
   = [COMPlugin 1 ''P'' None True, SeparatorPlugin, COMPlugin 2 ''Q'' None True]
   \<and> sint (- 2147483647 :: int32) < sint (2 :: int32)
   \<and> arrangeCOMPlugins 0 []
     [\<lparr>Plugin = COMPlugin 1 ''P'' None True, GroupId = 3000000000, GroupPosition = 0\<rparr>,
      \<lparr>Plugin = COMPlugin 2 ''Q'' None True, GroupId = 0, GroupPosition = 0\<rparr>]
   = [COMPlugin 1 ''P'' None True, SeparatorPlugin, COMPlugin 2 ''Q'' None True]
   \<and> uint (0 :: int32) < uint (3000000000 :: int32)"
  by (simp add: arrangeCOMPlugins_def sortAndRemoveDuplicates_def Sort_def compareIds_def
      compareGroups_def CompareTo_def addCOMPlugins_def RemoveAt_def Int32_MaxValue_def Let_def)

subsection \<open>Entries and keys that cannot be read\<close>

lemma scanIds_append:
  "scanIds newGuid executor global (xs @ ys) infos =
     (case scanIds newGuid executor global xs infos of
        (infos', None) \<Rightarrow> scanIds newGuid executor global ys infos'
      | (infos', Some e) \<Rightarrow> (infos', Some e))"
  by (induction xs arbitrary: infos) (auto split: sum.splits option.splits)

lemma idToGuid_notAGuid:
  assumes "raisesOnly {FormatException, OverflowException} (newGuid i)" "isl (newGuid i)"
  shows "idToGuid newGuid i = Inr None"
  using assms by (auto simp: idToGuid_def raisesOnly_def isl_def split: exn.splits)

lemma idToGuid_no_exception:
  assumes "raisesOnly {FormatException, OverflowException} (newGuid i)"
  shows "\<exists>r. idToGuid newGuid i = Inr r"
  using assms by (auto simp: idToGuid_def raisesOnly_def split: sum.splits exn.splits)

lemma fetchPluginInfos_raisesOnly:
  assumes "executorRaisesOnly E executor g"
  shows "raisesOnly E (fetchPluginInfos executor g global)"
  using assms
  by (auto simp: executorRaisesOnly_def fetchPluginInfos_def fetchIconFile_def raisesOnly_def
      split: sum.splits bool.splits option.splits)

lemma fetchPluginInfos_fails:
  assumes "queryFails executor g"
  shows "isl (fetchPluginInfos executor g global)"
  using assms
  by (auto simp: queryFails_def fetchPluginInfos_def fetchIconFile_def isl_def
      split: sum.splits bool.splits option.splits)

lemma tryFetchPluginInfos_no_exception:
  assumes "executorRaisesOnly {COMPluginExecutorException} executor g"
  shows "\<exists>r. tryFetchPluginInfos executor g global = Inr r"
  using fetchPluginInfos_raisesOnly [OF assms, of global]
  by (auto simp: tryFetchPluginInfos_def raisesOnly_def split: sum.splits exn.splits)

lemma tryFetchPluginInfos_skips:
  assumes "executorRaisesOnly {COMPluginExecutorException} executor g" "queryFails executor g"
  shows "tryFetchPluginInfos executor g global = Inr None"
  using fetchPluginInfos_raisesOnly [OF assms(1), of global] fetchPluginInfos_fails [OF assms(2), of global]
  by (auto simp: tryFetchPluginInfos_def raisesOnly_def isl_def split: sum.splits exn.splits)

lemma scanIds_no_exception:
  assumes "\<forall>i. raisesOnly {FormatException, OverflowException} (newGuid i)"
    and "\<forall>g. executorRaisesOnly {COMPluginExecutorException} executor g"
  shows "\<exists>infos'. scanIds newGuid executor global ids infos = (infos', None)"
proof (induction ids arbitrary: infos)
  case Nil
  show ?case by simp
next
  case (Cons i ids)
  obtain r where r: "idToGuid newGuid i = Inr r"
    using idToGuid_no_exception assms(1) by blast
  show ?case
  proof (cases r)
    case None
    with r Cons show ?thesis by simp
  next
    case (Some g)
    obtain r' where r': "tryFetchPluginInfos executor g global = Inr r'"
      using tryFetchPluginInfos_no_exception assms(2) by blast
    with r Some Cons show ?thesis by (cases r') simp_all
  qed
qed

text \<open>
  Claim C7. Let \<open>new Guid\<close> raise nothing but \<open>FormatException\<close> and \<open>OverflowException\<close>,
  and the executor nothing but \<open>COMPluginExecutorException\<close>. Then
  \<^item> a value name that is not the text of a \<open>Guid\<close>, or for which one of the queries
    fails, changes nothing: the scan of the key gives what it gives without that name;
  \<^item> a key whose opening raises \<open>SecurityException\<close> leaves the list of beans as it is;
  \<^item> when the registry raises nothing but \<open>SecurityException\<close>, \<open>GetCOMPlugins\<close> and
    \<open>GetPluginsInDefaultOrder\<close> return a list: no exception leaves them.
\<close>

theorem GetCOMPlugins_skips_what_fails:
  assumes ng: "\<forall>i. raisesOnly {FormatException, OverflowException} (newGuid i)"
    and ex: "\<forall>g. executorRaisesOnly {COMPluginExecutorException} executor g"
  shows "((isl (newGuid i) \<or> (\<exists>g. newGuid i = Inr g \<and> queryFails executor g)) \<longrightarrow>
            scanIds newGuid executor global (pre @ i # post) infos =
            scanIds newGuid executor global (pre @ post) infos)
       \<and> (reg (Global k) (KeyPath k) = Inl SecurityException \<longrightarrow>
            scanRegKey reg newGuid executor k infos = Inr infos)
       \<and> ((\<forall>global path. raisesOnly {SecurityException} (reg global path)) \<longrightarrow>
            (\<exists>out. GetCOMPlugins sid env reg newGuid executor plugins = Inr out) \<and>
            (\<exists>out. GetPluginsInDefaultOrder sid res env reg newGuid executor settings
                      includePipelinePlugins = Inr out))"
proof (intro conjI impI)
  assume bad: "isl (newGuid i) \<or> (\<exists>g. newGuid i = Inr g \<and> queryFails executor g)"
  have one: "scanIds newGuid executor global [i] acc = (acc, None)" for acc
  proof (cases "isl (newGuid i)")
    case True
    with ng have "idToGuid newGuid i = Inr None" by (simp add: idToGuid_notAGuid)
    then show ?thesis by simp
  next
    case False
    with bad obtain g where g: "newGuid i = Inr g" "queryFails executor g" by blast
    with ex have "tryFetchPluginInfos executor g global = Inr None"
      by (simp add: tryFetchPluginInfos_skips)
    moreover from g(1) have "idToGuid newGuid i = Inr None \<or> idToGuid newGuid i = Inr (Some g)"
      by (simp add: idToGuid_def)
    ultimately show ?thesis by auto
  qed
  have "scanIds newGuid executor global (pre @ [i] @ post) infos =
        scanIds newGuid executor global (pre @ post) infos"
    unfolding scanIds_append [of _ _ _ pre] scanIds_append [of _ _ _ "[i]"] one
    by (simp split: prod.splits option.splits)
  then show "scanIds newGuid executor global (pre @ i # post) infos =
             scanIds newGuid executor global (pre @ post) infos"
    by simp
next
  assume "reg (Global k) (KeyPath k) = Inl SecurityException"
  then show "scanRegKey reg newGuid executor k infos = Inr infos"
    by (simp add: scanRegKey_def catchKeyExceptions_def)
next
  assume reg: "\<forall>global path. raisesOnly {SecurityException} (reg global path)"
  have key: "\<exists>infos'. scanRegKey reg newGuid executor k infos = Inr infos'" for k infos
  proof (cases "reg (Global k) (KeyPath k)")
    case (Inl e)
    with reg [rule_format, of "Global k" "KeyPath k"] have "e = SecurityException"
      by (simp add: raisesOnly_def)
    with Inl show ?thesis by (simp add: scanRegKey_def catchKeyExceptions_def)
  next
    case (Inr names)
    show ?thesis
    proof (cases names)
      case None
      with Inr show ?thesis by (simp add: scanRegKey_def catchKeyExceptions_def)
    next
      case (Some ids)
      obtain infos' where "scanIds newGuid executor (Global k) ids infos = (infos', None)"
        using scanIds_no_exception [OF ng ex] by blast
      with Inr Some show ?thesis by (simp add: scanRegKey_def catchKeyExceptions_def)
    qed
  qed
  have keys: "\<exists>infos'. scanRegKeys reg newGuid executor ks infos = Inr infos'" for ks infos
  proof (induction ks arbitrary: infos)
    case Nil
    show ?case by simp
  next
    case (Cons k ks)
    obtain infos' where "scanRegKey reg newGuid executor k infos = Inr infos'"
      using key by blast
    with Cons show ?case by simp
  qed
  obtain infos' where i: "scanRegKeys reg newGuid executor (regKeyInfos env) [] = Inr infos'"
    using keys by blast
  then show "\<exists>out. GetCOMPlugins sid env reg newGuid executor plugins = Inr out"
    by (simp add: GetCOMPlugins_def)
  from i show "\<exists>out. GetPluginsInDefaultOrder sid res env reg newGuid executor settings
                      includePipelinePlugins = Inr out"
    by (simp add: GetPluginsInDefaultOrder_def GetCOMPlugins_def Let_def)
qed

theorem GetCOMPlugins_skips_what_fails_witness:
  "scanIds exampleNewGuid exampleExecutor False
     ([''{00000000-0000-0000-0000-000000000003}''] @ ''not-a-guid'' #
      [''{00000000-0000-0000-0000-000000000001}'']) [] =
   scanIds exampleNewGuid exampleExecutor False
     ([''{00000000-0000-0000-0000-000000000003}''] @
      [''{00000000-0000-0000-0000-000000000001}'']) []
   \<and> scanRegKey exampleRegistry exampleNewGuid exampleExecutor
       \<lparr>Global = True, KeyPath = PCC_COM_PLUGINS_KEY\<rparr> [] = Inr []
   \<and> (\<exists>out. GetCOMPlugins 0 \<lparr>Is64Bit = True, IsWow64 = False\<rparr> exampleRegistry exampleNewGuid
               exampleExecutor [] = Inr out)"
proof -
  have ng: "\<forall>i. raisesOnly {FormatException, OverflowException} (exampleNewGuid i)"
    by (simp add: raisesOnly_def exampleNewGuid_def)
  have ex: "\<forall>g. executorRaisesOnly {COMPluginExecutorException} exampleExecutor g"
    by (simp add: executorRaisesOnly_def raisesOnly_def exampleExecutor_def)
  have bad: "isl (exampleNewGuid ''not-a-guid'')"
    by (simp add: exampleNewGuid_def)
  have denied: "exampleRegistry (Global \<lparr>Global = True, KeyPath = PCC_COM_PLUGINS_KEY\<rparr>)
                  (KeyPath \<lparr>Global = True, KeyPath = PCC_COM_PLUGINS_KEY\<rparr>) = Inl SecurityException"
    by (simp add: exampleRegistry_def)
  have reg: "\<forall>global path. raisesOnly {SecurityException} (exampleRegistry global path)"
    by (simp add: raisesOnly_def exampleRegistry_def)
  note t = GetCOMPlugins_skips_what_fails [OF ng ex, where i = "''not-a-guid''" and global = False
      and pre = "[''{00000000-0000-0000-0000-000000000003}'']"
      and post = "[''{00000000-0000-0000-0000-000000000001}'']" and infos = "[]"
      and reg = exampleRegistry and k = "\<lparr>Global = True, KeyPath = PCC_COM_PLUGINS_KEY\<rparr>"
      and sid = 0 and env = "\<lparr>Is64Bit = True, IsWow64 = False\<rparr>" and plugins = "[]"]
  from t bad denied reg show ?thesis by blast
qed

text \<open>The list that \<open>GetCOMPlugins\<close> returns on that registry.\<close>

lemma GetCOMPlugins_example:
  "GetCOMPlugins 0 \<lparr>Is64Bit = True, IsWow64 = False\<rparr> exampleRegistry exampleNewGuid
               exampleExecutor [] =
   Inr [COMPlugin 1 ''Plugin'' (Some []) False, COMPlugin 3 ''Plugin'' (Some []) False]"
  by (simp add: GetCOMPlugins_def regKeyInfos_def scanRegKey_def catchKeyExceptions_def
      exampleRegistry_def exampleNewGuid_def exampleExecutor_def idToGuid_def
      LEGACY_COM_PLUGINS_LAST_UPDATE_VALUE_NAME_def tryFetchPluginInfos_def fetchPluginInfos_def
      fetchIconFile_def arrangeCOMPlugins_def sortAndRemoveDuplicates_def Sort_def compareIds_def
      compareGroups_def CompareTo_def addCOMPlugins_def RemoveAt_def Int32_MaxValue_def Let_def)

section \<open>Properties of \<open>GetPath\<close>\<close>

lemma GetPath_append:
  "GetPath (xs @ ys) path =
     (case GetPath xs path of Inl f \<Rightarrow> Inl f | Inr path' \<Rightarrow> GetPath ys path')"
  by (induction xs arbitrary: path) (auto split: sum.splits)

text \<open>
  Claim C8. When the steps in front of a step give a path and the step signals a hard
  failure on it, \<open>GetPath\<close> returns that failure, whatever steps come after: it returns
  no path at all, so neither the path that the steps in front have produced nor the
  output of any other part of the steps.
\<close>

theorem GetPath_hard_failure:
  assumes "GetPath before path = Inr partial" and "step partial = Inl f"
  shows "GetPath (before @ step # after) path = Inl f
         \<and> (\<forall>out. GetPath (before @ step # after) path \<noteq> Inr out)"
  using assms by (simp add: GetPath_append)

theorem GetPath_hard_failure_witness:
  "GetPath ([\<lambda>p. Inr (p @ ''1'')] @ (\<lambda>p. Inl HardFailure) # [\<lambda>p. Inr (p @ ''3'')]) ''C:''
     = Inl HardFailure"
  using GetPath_hard_failure [of "[\<lambda>p. Inr (p @ ''1'')]" "''C:''" "''C:1''"
      "\<lambda>p. Inl HardFailure" HardFailure "[\<lambda>p. Inr (p @ ''3'')]"]
  by simp

section \<open>Properties of \<open>PluginIdsToString\<close> and \<open>StringToPluginIds\<close>\<close>

lemma insertOtherElements_append:
  "insertOtherElements sfg sep ids wos =
     wos @ concat (map (\<lambda>g. sep # guidToString sfg g) ids)"
  by (induction ids arbitrary: wos) simp_all

lemma convertParts_append:
  "convertParts cfs parts v = v @ List.map_filter cfs parts"
  by (induction parts arbitrary: v) (auto simp: map_filter_simps split: option.splits)

lemma split_joined:
  assumes sp: "splitsAt split sep"
    and parts: "\<forall>g \<in> set (g0 # ids). guidToString sfg g \<noteq> [] \<and> sep \<notin> set (guidToString sfg g)"
  shows "split (guidToString sfg g0 @ concat (map (\<lambda>g. sep # guidToString sfg g) ids)) sep =
         map (guidToString sfg) (g0 # ids)"
  using parts
proof (induction ids arbitrary: g0)
  case Nil
  with sp show ?case by (simp add: splitsAt_def)
next
  case (Cons g ids)
  have "split (guidToString sfg g0 @ sep # (guidToString sfg g @ concat (map (\<lambda>g. sep # guidToString sfg g) ids))) sep
        = guidToString sfg g0 # split (guidToString sfg g @ concat (map (\<lambda>g. sep # guidToString sfg g) ids)) sep"
    using sp Cons.prems by (simp add: splitsAt_def)
  moreover have "split (guidToString sfg g @ concat (map (\<lambda>g. sep # guidToString sfg g) ids)) sep
        = map (guidToString sfg) (g # ids)"
    using Cons.prems by (intro Cons.IH) simp
  ultimately show ?case by simp
qed

text \<open>
  Claim C9. When \<open>split\<close> cuts at the separator, and every id of the list has a text
  that is free of the separator and reads back as the id, \<open>StringToPluginIds\<close> gives
  back the list that \<open>PluginIdsToString\<close> was given.
\<close>

theorem PluginIds_round_trip:
  assumes sp: "splitsAt split sep"
    and gt: "\<forall>g \<in> set ids. guidText stringFromGUID2 clsidFromString sep g"
  shows "StringToPluginIds split clsidFromString (PluginIdsToString stringFromGUID2 ids sep) sep = ids"
proof (cases ids)
  case Nil
  with sp show ?thesis
    by (simp add: StringToPluginIds_def PluginIdsToString_def splitsAt_def)
next
  case (Cons g0 rest)
  have t: "guidToString stringFromGUID2 g \<noteq> [] \<and> sep \<notin> set (guidToString stringFromGUID2 g) \<and>
           clsidFromString (guidToString stringFromGUID2 g) = Some g" if "g \<in> set ids" for g
    using gt that by (auto simp: guidText_def guidToString_def split: option.splits)
  have "split (PluginIdsToString stringFromGUID2 ids sep) sep =
        map (guidToString stringFromGUID2) (g0 # rest)"
    unfolding Cons PluginIdsToString_def list.case insertOtherElements_append
    using sp t Cons by (intro split_joined) auto
  moreover have "List.map_filter clsidFromString (map (guidToString stringFromGUID2) xs) = xs"
    if "set xs \<subseteq> set ids" for xs
    using that t by (induction xs) (auto simp: map_filter_simps)
  then have "List.map_filter clsidFromString (map (guidToString stringFromGUID2) ids) = ids"
    by simp
  ultimately show ?thesis
    unfolding StringToPluginIds_def convertParts_append Cons [symmetric] by simp
qed

lemma tokens_part:
  "sep \<notin> set part \<Longrightarrow> tokens sep token (part @ rest) = tokens sep (token @ part) rest"
  by (induction part arbitrary: token) auto

lemma splitsAt_exampleSplit: "splitsAt exampleSplit sep"
  unfolding splitsAt_def exampleSplit_def
proof (intro conjI allI impI)
  show "tokens sep [] [] = []" by simp
  fix part :: "'a list"
  assume p: "part \<noteq> [] \<and> sep \<notin> set part"
  then show "tokens sep [] part = [part]"
    using tokens_part [of sep part "[]" "[]"] by simp
  fix rest
  from p show "tokens sep [] (part @ sep # rest) = part # tokens sep [] rest"
    using tokens_part [of sep part "[]" "sep # rest"] by simp
qed

theorem PluginIds_round_trip_witness:
  "StringToPluginIds exampleSplit exampleCLSIDFromString
     (PluginIdsToString exampleStringFromGUID2 [2, 1, 2] CHR '','') CHR '','' = [2, 1, 2]"
proof (rule PluginIds_round_trip)
  show "splitsAt exampleSplit CHR '',''" by (rule splitsAt_exampleSplit)
  show "\<forall>g \<in> set [2, 1, 2]. guidText exampleStringFromGUID2 exampleCLSIDFromString CHR '','' g"
    by (simp add: guidText_def exampleStringFromGUID2_def exampleCLSIDFromString_def)
qed

end
